theory Spec2Isabelle
  imports Main "HOL-Library.Char_ord" "HOL-Library.List_Lexorder"
begin

section \<open>JavaScript values\<close>

text \<open>
  The values the scripts of \<^verbatim>\<open>gui/gameface\<close> handle. A finite number is an integer-valued
  double, written as the integer it is; \<open>NaN\<close> and the two infinities are values of their
  own, since \<^verbatim>\<open>>\<close> treats them differently. Objects live in a heap and are referred to by address, so that a graph with
  a cycle is a value like any other. A plain object is the list of its own enumerable
  string-keyed properties in enumeration order.
\<close>

datatype jsnum = NaN | NegInf | Fin int | PosInf

datatype jsval =
    JUndefined
  | JNull
  | JBool bool
  | JNumber jsnum
  | JString string
  | JBigInt int
  | JSymbol string
  | JRef nat

type_synonym props = "(string \<times> jsval) list"

datatype jsobj =
    PlainObject props
  | ArrayObject "jsval list"
  | FunctionObject string

type_synonym heap = "nat \<Rightarrow> jsobj"

datatype js_error = TypeError | RangeError

fun typeof :: "heap \<Rightarrow> jsval \<Rightarrow> string" where
  "typeof h JUndefined = ''undefined''"
| "typeof h JNull = ''object''"
| "typeof h (JBool b) = ''boolean''"
| "typeof h (JNumber n) = ''number''"
| "typeof h (JString s) = ''string''"
| "typeof h (JBigInt i) = ''bigint''"
| "typeof h (JSymbol d) = ''symbol''"
| "typeof h (JRef a) = (case h a of FunctionObject src \<Rightarrow> ''function'' | _ \<Rightarrow> ''object'')"

text \<open>\<^verbatim>\<open>if (v)\<close>: the values that count as false are \<^verbatim>\<open>undefined\<close>, \<^verbatim>\<open>null\<close>, \<^verbatim>\<open>false\<close>,
  \<^verbatim>\<open>0\<close>, \<^verbatim>\<open>NaN\<close>, \<^verbatim>\<open>0n\<close> and the empty string.\<close>

fun truthy :: "jsval \<Rightarrow> bool" where
  "truthy JUndefined = False"
| "truthy JNull = False"
| "truthy (JBool b) = b"
| "truthy (JNumber n) = (n \<noteq> NaN \<and> n \<noteq> Fin 0)"
| "truthy (JString s) = (s \<noteq> [])"
| "truthy (JBigInt i) = (i \<noteq> 0)"
| "truthy (JSymbol d) = True"
| "truthy (JRef a) = True"

text \<open>\<^verbatim>\<open>a > b\<close> on numbers: false whenever an operand is \<^verbatim>\<open>NaN\<close>.\<close>

fun num_gt :: "jsnum \<Rightarrow> jsnum \<Rightarrow> bool" where
  "num_gt NaN b = False"
| "num_gt a NaN = False"
| "num_gt NegInf b = False"
| "num_gt a PosInf = False"
| "num_gt PosInf b = True"
| "num_gt a NegInf = True"
| "num_gt (Fin x) (Fin y) = (x > y)"

text \<open>
  The arithmetic of the scripts is that of doubles. An integer of magnitude up to \<open>2^53\<close>
  is a double; a larger one is rounded to 53 significant bits, to the nearest double and
  to the even one of two equally near, and a result of magnitude \<open>2^1024\<close> or more is an
  infinity. So \<open>2^53 + 1\<close> is \<open>2^53\<close> again.
\<close>

fun bit_length :: "nat \<Rightarrow> nat" where
  "bit_length n = (if n = 0 then 0 else Suc (bit_length (n div 2)))"

declare bit_length.simps [simp del]

definition round_double :: "int \<Rightarrow> int" where
  "round_double n =
     (if \<bar>n\<bar> \<le> 2 ^ 53 then n
      else
        let u = 2 ^ (bit_length (nat \<bar>n\<bar>) - 53);
            q = \<bar>n\<bar> div u;
            r = \<bar>n\<bar> mod u
        in sgn n * (if 2 * r > u \<or> (2 * r = u \<and> odd q) then q + 1 else q) * u)"

definition double_of :: "int \<Rightarrow> jsnum" where
  "double_of n =
     (if \<bar>round_double n\<bar> \<ge> 2 ^ 1024 then (if n > 0 then PosInf else NegInf)
      else Fin (round_double n))"

text \<open>\<^verbatim>\<open>a + 1\<close> on numbers.\<close>

fun num_succ :: "jsnum \<Rightarrow> jsnum" where
  "num_succ (Fin x) = double_of (x + 1)"
| "num_succ a = a"

text \<open>\<^verbatim>\<open>a * b\<close> on numbers: \<open>0 * \<plusminus>Infinity\<close> is \<^verbatim>\<open>NaN\<close>.\<close>

fun num_sign :: "jsnum \<Rightarrow> int" where
  "num_sign (Fin x) = sgn x"
| "num_sign PosInf = 1"
| "num_sign NegInf = - 1"
| "num_sign NaN = 0"

fun num_mul :: "jsnum \<Rightarrow> jsnum \<Rightarrow> jsnum" where
  "num_mul NaN b = NaN"
| "num_mul a NaN = NaN"
| "num_mul (Fin x) (Fin y) = double_of (x * y)"
| "num_mul a b =
     (if num_sign a * num_sign b = 0 then NaN
      else if num_sign a * num_sign b > 0 then PosInf else NegInf)"

subsection \<open>Decimal text of an index\<close>

definition digit_char :: "nat \<Rightarrow> char" where
  "digit_char d = ''0123456789'' ! d"

fun dec :: "nat \<Rightarrow> string" where
  "dec n = (if n < 10 then [digit_char n] else dec (n div 10) @ [digit_char (n mod 10)])"

declare dec.simps [simp del]

text \<open>The digit a character stands for, which reads a decimal text back.\<close>

definition digit_val :: "char \<Rightarrow> nat" where
  "digit_val c = length (takeWhile (\<lambda>x. x \<noteq> c) ''0123456789'')"

definition dec_int :: "int \<Rightarrow> string" where
  "dec_int i = (if i < 0 then CHR ''-'' # dec (nat (- i)) else dec (nat i))"

subsection \<open>Property assignment and enumeration\<close>

text \<open>\<^verbatim>\<open>o[k] = v\<close> on a property list: an existing key keeps its place, a new one goes last.\<close>

fun set_prop :: "string \<Rightarrow> jsval \<Rightarrow> props \<Rightarrow> props" where
  "set_prop k v [] = [(k, v)]"
| "set_prop k v ((k', v') # ps) =
     (if k' = k then (k, v) # ps else (k', v') # set_prop k v ps)"

text \<open>An object literal (with or without a spread) and \<^verbatim>\<open>Object.assign\<close>: the properties
  are assigned one after the other.\<close>

definition assign_props :: "props \<Rightarrow> props \<Rightarrow> props" where
  "assign_props target source = fold (\<lambda>(k, v). set_prop k v) source target"

fun get_prop :: "props \<Rightarrow> string \<Rightarrow> jsval" where
  "get_prop [] k = JUndefined"
| "get_prop ((k', v) # ps) k = (if k' = k then v else get_prop ps k)"

fun indexed :: "nat \<Rightarrow> 'a list \<Rightarrow> (string \<times> 'a) list" where
  "indexed i [] = []"
| "indexed i (x # xs) = (dec i, x) # indexed (Suc i) xs"

text \<open>\<^verbatim>\<open>Object.entries(v)\<close>: a \<^verbatim>\<open>TypeError\<close> on \<^verbatim>\<open>undefined\<close> and \<^verbatim>\<open>null\<close>, the indexed
  elements of an array or characters of a string, nothing for the other primitives.\<close>

fun object_entries :: "heap \<Rightarrow> jsval \<Rightarrow> js_error + props" where
  "object_entries h JUndefined = Inl TypeError"
| "object_entries h JNull = Inl TypeError"
| "object_entries h (JString s) = Inr (indexed 0 (map (\<lambda>c. JString [c]) s))"
| "object_entries h (JRef a) =
     (case h a of
        PlainObject ps \<Rightarrow> Inr ps
      | ArrayObject xs \<Rightarrow> Inr (indexed 0 xs)
      | FunctionObject src \<Rightarrow> Inr [])"
| "object_entries h v = Inr []"

section \<open>View events (\<^verbatim>\<open>views.js\<close>, in \<^verbatim>\<open>src/unnamed/part_001\<close>)\<close>

text \<open>
  \<^verbatim>\<open>serializeEventArgument(value)\<close>. The result is the returned object (its property
  list), \<open>None\<close> for \<^verbatim>\<open>undefined\<close>; the first component is what the call writes with
  \<^verbatim>\<open>console.warn\<close>.
\<close>

definition serializeEventArgument :: "heap \<Rightarrow> jsval \<Rightarrow> string list list \<times> props option" where
  "serializeEventArgument h v =
     (if v = JUndefined then ([], None)
      else if typeof h v = ''number'' then ([], Some [(''number'', v)])
      else if typeof h v = ''boolean'' then ([], Some [(''bool'', v)])
      else if typeof h v = ''string'' then ([], Some [(''string'', v)])
      else if v \<noteq> JNull then ([[''Unsupported argument type'', typeof h v]], None)
      else ([], None))"

text \<open>The body of the \<^verbatim>\<open>for ... of\<close> loop of \<^verbatim>\<open>createViewEventArguments\<close>: the state is
  the console output so far and \<^verbatim>\<open>result\<close>.\<close>

definition createViewEventArguments_step ::
  "heap \<Rightarrow> string \<times> jsval \<Rightarrow> string list list \<times> props list \<Rightarrow> string list list \<times> props list" where
  "createViewEventArguments_step h kv st =
     (case serializeEventArgument h (snd kv) of
        (w, None) \<Rightarrow> (fst st @ w, snd st)
      | (w, Some serialized) \<Rightarrow>
          (fst st @ w,
           snd st @ [assign_props []
             ([(''__Type'', JString ''GFValueProxy''), (''name'', JString (fst kv))] @ serialized)]))"

definition createViewEventArguments ::
  "heap \<Rightarrow> jsval \<Rightarrow> js_error + string list list \<times> props list" where
  "createViewEventArguments h args =
     (case object_entries h args of
        Inl e \<Rightarrow> Inl e
      | Inr entries \<Rightarrow> Inr (fold (createViewEventArguments_step h) entries ([], [])))"

text \<open>\<^verbatim>\<open>v?.k\<close> for the own properties of \<open>v\<close>: \<^verbatim>\<open>undefined\<close> on \<^verbatim>\<open>undefined\<close> and \<^verbatim>\<open>null\<close>,
  and on a key the value does not have. Members inherited from a prototype are not values
  of the model.\<close>

fun member_of :: "heap \<Rightarrow> jsval \<Rightarrow> string \<Rightarrow> jsval" where
  "member_of h (JRef a) k =
     (case h a of
        PlainObject ps \<Rightarrow> get_prop ps k
      | ArrayObject xs \<Rightarrow>
          (if k = ''length'' then JNumber (Fin (int (length xs))) else get_prop (indexed 0 xs) k)
      | FunctionObject src \<Rightarrow> JUndefined)"
| "member_of h (JString s) k =
     (if k = ''length'' then JNumber (Fin (int (length s)))
      else get_prop (indexed 0 (map (\<lambda>c. JString [c]) s)) k)"
| "member_of h v k = JUndefined"

section \<open>The resource injector (\<^verbatim>\<open>gui/gameface/js/index.js\<close>)\<close>

record dom_element =
  tagName :: string
  el_props :: props

record asset_type =
  at_type :: string
  at_tag :: string
  at_defaults :: props

definition assetTypes :: "asset_type list" where
  "assetTypes =
     [\<lparr>at_type = ''styles'', at_tag = ''link'', at_defaults = [(''rel'', JString ''stylesheet'')]\<rparr>,
      \<lparr>at_type = ''scripts'', at_tag = ''script'',
        at_defaults = [(''type'', JString ''text/javascript'')]\<rparr>,
      \<lparr>at_type = ''modules'', at_tag = ''script'', at_defaults = [(''type'', JString ''module'')]\<rparr>]"

text \<open>The state of a view: the set \<^verbatim>\<open>injectedResIds\<close> and the children of
  \<^verbatim>\<open>document.body\<close> the script has appended, oldest first.\<close>

record view_state =
  injectedResIds :: "jsval set"
  body :: "dom_element list"

definition injectAsset :: "string \<Rightarrow> string \<Rightarrow> jsval \<Rightarrow> props \<Rightarrow> view_state \<Rightarrow> view_state" where
  "injectAsset ty tag url attributes st =
     (let el0 = [(''crossOrigin'', JString [])];
          el1 = (if ty = ''styles'' then set_prop ''href'' url el0
                 else set_prop ''defer'' (JBool True) (set_prop ''src'' url el0));
          el2 = assign_props el1 attributes
      in st\<lparr>body := body st @ [\<lparr>tagName = tag, el_props = el2\<rparr>]\<rparr>)"

text \<open>The callback of the inner \<^verbatim>\<open>forEach\<close>: one asset of one type.\<close>

definition inject_one :: "heap \<Rightarrow> asset_type \<Rightarrow> jsval \<Rightarrow> view_state \<Rightarrow> view_state" where
  "inject_one h t asset st =
     (if truthy (member_of h asset ''value'')
      then injectAsset (at_type t) (at_tag t) (member_of h asset ''value'')
             (assign_props [] (at_defaults t)) st
      else st)"

text \<open>\<^verbatim>\<open>x?.forEach(f)\<close>: nothing to visit when \<open>x\<close> is \<^verbatim>\<open>undefined\<close> or \<^verbatim>\<open>null\<close>, the
  elements of an array, and a \<^verbatim>\<open>TypeError\<close> (\<open>x.forEach\<close> is not a function) otherwise.\<close>

fun optional_forEach :: "heap \<Rightarrow> jsval \<Rightarrow> js_error + jsval list" where
  "optional_forEach h JUndefined = Inr []"
| "optional_forEach h JNull = Inr []"
| "optional_forEach h (JRef a) =
     (case h a of ArrayObject xs \<Rightarrow> Inr xs | _ \<Rightarrow> Inl TypeError)"
| "optional_forEach h v = Inl TypeError"

text \<open>The outer \<^verbatim>\<open>assetTypes.forEach\<close>; an exception ends it and keeps what was appended.\<close>

fun inject_types ::
  "heap \<Rightarrow> jsval \<Rightarrow> asset_type list \<Rightarrow> view_state \<Rightarrow> view_state \<times> js_error option" where
  "inject_types h featureModule [] st = (st, None)"
| "inject_types h featureModule (t # ts) st =
     (case optional_forEach h (member_of h featureModule (at_type t)) of
        Inl e \<Rightarrow> (st, Some e)
      | Inr assets \<Rightarrow> inject_types h featureModule ts (fold (inject_one h t) assets st))"

text \<open>\<^verbatim>\<open>injectModAssets(resId)\<close>; \<open>subViews\<close> is \<^verbatim>\<open>window.subViews.get\<close> at the time of
  the call.\<close>

definition injectModAssets ::
  "heap \<Rightarrow> (jsval \<Rightarrow> jsval) \<Rightarrow> jsval \<Rightarrow> view_state \<Rightarrow> view_state \<times> js_error option" where
  "injectModAssets h subViews resId st =
     (if resId \<in> injectedResIds st then (st, None)
      else
        let featureModule = member_of h (member_of h (subViews resId) ''model'') ''ModInjectModel''
        in if \<not> truthy featureModule then (st, None)
           else inject_types h featureModule assetTypes
                  (st\<lparr>injectedResIds := insert resId (injectedResIds st)\<rparr>))"

text \<open>The elements the documentation of the injector describes, for an asset URL.\<close>

definition link_element :: "jsval \<Rightarrow> dom_element" where
  "link_element url =
     \<lparr>tagName = ''link'',
      el_props = [(''crossOrigin'', JString []), (''href'', url), (''rel'', JString ''stylesheet'')]\<rparr>"

definition script_element :: "string \<Rightarrow> jsval \<Rightarrow> dom_element" where
  "script_element ty url =
     \<lparr>tagName = ''script'',
      el_props = [(''crossOrigin'', JString []), (''src'', url), (''defer'', JBool True),
                  (''type'', JString ty)]\<rparr>"

text \<open>The URLs of a list of the model: none when the list is absent, else the \<^verbatim>\<open>value\<close> of
  each asset that has one.\<close>

definition asset_urls :: "heap \<Rightarrow> jsval \<Rightarrow> string \<Rightarrow> jsval list" where
  "asset_urls h featureModule ty =
     (case optional_forEach h (member_of h featureModule ty) of
        Inl e \<Rightarrow> []
      | Inr assets \<Rightarrow> filter truthy (map (\<lambda>asset. member_of h asset ''value'') assets))"

text \<open>A heap given by the list of its objects: address \<open>a\<close> holds the \<open>a\<close>-th object, and an
  empty object beyond the list.\<close>

definition heap_of :: "jsobj list \<Rightarrow> heap" where
  "heap_of objs = (\<lambda>a. if a < length objs then objs ! a else PlainObject [])"

section \<open>Debug helpers (\<^verbatim>\<open>debug.js\<close>, in \<^verbatim>\<open>mods/libs/media.js\<close>)\<close>

text \<open>\<^verbatim>\<open>String(v)\<close>, which \<^verbatim>\<open>debugObject\<close> applies to the values that are not objects: the
  primitives and the functions (whose text is their source). A number of magnitude up to
  \<open>2^53\<close> is written with all its decimal digits. A larger one is written with the
  shortest digits that identify the double, padded with zeros, and in exponent form from
  \<open>10^21\<close> on: that text is the engine's and is taken as given, \<open>number_text\<close>.\<close>

fun js_String :: "(int \<Rightarrow> string) \<Rightarrow> heap \<Rightarrow> jsval \<Rightarrow> string" where
  "js_String number_text h JUndefined = ''undefined''"
| "js_String number_text h JNull = ''null''"
| "js_String number_text h (JBool b) = (if b then ''true'' else ''false'')"
| "js_String number_text h (JNumber NaN) = ''NaN''"
| "js_String number_text h (JNumber PosInf) = ''Infinity''"
| "js_String number_text h (JNumber NegInf) = ''-Infinity''"
| "js_String number_text h (JNumber (Fin i)) =
     (if \<bar>i\<bar> \<le> 2 ^ 53 then dec_int i else number_text i)"
| "js_String number_text h (JString s) = s"
| "js_String number_text h (JBigInt i) = dec_int i"
| "js_String number_text h (JSymbol d) = ''Symbol('' @ d @ '')''"
| "js_String number_text h (JRef a) =
     (case h a of FunctionObject src \<Rightarrow> src | _ \<Rightarrow> ''[object Object]'')"

text \<open>\<^verbatim>\<open>" ".repeat(n)\<close>: a \<^verbatim>\<open>RangeError\<close> when \<open>n\<close> is negative or infinite, the empty string
  when it is \<^verbatim>\<open>NaN\<close>. (An engine also throws a \<^verbatim>\<open>RangeError\<close> beyond its own maximal string
  length; that ends a call earlier, never later.)\<close>

fun space_repeat :: "jsnum \<Rightarrow> js_error + string" where
  "space_repeat NaN = Inr []"
| "space_repeat (Fin n) = (if n < 0 then Inl RangeError else Inr (replicate (nat n) CHR '' ''))"
| "space_repeat PosInf = Inl RangeError"
| "space_repeat NegInf = Inl RangeError"

text \<open>The \<^verbatim>\<open>options\<close> argument of \<^verbatim>\<open>debugObject\<close>; \<open>None\<close> is a member that is missing
  or \<^verbatim>\<open>undefined\<close>, for which the destructuring takes the default.\<close>

record debug_options =
  opt_indentSize :: "jsnum option"
  opt_maxDepth :: "jsnum option"
  opt_showArrayIndex :: "bool option"

text \<open>\<^verbatim>\<open>Array.isArray(obj)\<close>, with the elements, and the own properties \<^verbatim>\<open>Object.keys\<close>
  enumerates.\<close>

fun array_items :: "heap \<Rightarrow> jsval \<Rightarrow> jsval list option" where
  "array_items h (JRef a) = (case h a of ArrayObject xs \<Rightarrow> Some xs | _ \<Rightarrow> None)"
| "array_items h v = None"

fun own_props :: "heap \<Rightarrow> jsval \<Rightarrow> props" where
  "own_props h (JRef a) = (case h a of PlainObject ps \<Rightarrow> ps | _ \<Rightarrow> [])"
| "own_props h v = []"

text \<open>
  The objects of the heap are plain data: reading a property or the elements of an array
  runs no code of the object (no getter, no proxy).

  A call writes lines with \<^verbatim>\<open>console.error\<close> and returns, or throws after the lines
  written so far: \<open>(lines, None)\<close> and \<open>(lines, Some e)\<close>. The outer \<open>None\<close> is a call
  that needs more nested calls than the fuel allows; a call that gives \<open>None\<close> for every
  fuel does not return. \<open>each_call\<close> is \<^verbatim>\<open>forEach\<close> with such a callback.
\<close>

type_synonym console_run = "(string list \<times> js_error option) option"

fun each_call :: "('a \<Rightarrow> console_run) \<Rightarrow> 'a list \<Rightarrow> console_run" where
  "each_call f [] = Some ([], None)"
| "each_call f (x # xs) =
     (case f x of
        None \<Rightarrow> None
      | Some (out, Some e) \<Rightarrow> Some (out, Some e)
      | Some (out, None) \<Rightarrow>
          (case each_call f xs of
             None \<Rightarrow> None
           | Some (out', r) \<Rightarrow> Some (out @ out', r)))"

definition bracketed :: "string \<Rightarrow> string \<Rightarrow> console_run \<Rightarrow> console_run" where
  "bracketed opening closing r =
     (case r of
        None \<Rightarrow> None
      | Some (out, Some e) \<Rightarrow> Some (opening # out, Some e)
      | Some (out, None) \<Rightarrow> Some (opening # out @ [closing], None))"

fun debugObject ::
  "nat \<Rightarrow> (int \<Rightarrow> string) \<Rightarrow> heap \<Rightarrow> jsval \<Rightarrow> debug_options \<Rightarrow> jsnum \<Rightarrow> string \<Rightarrow>
   console_run" where
  "debugObject 0 number_text h obj options currentDepth prefix = None"
| "debugObject (Suc fuel) number_text h obj options currentDepth prefix =
     (let indentSize = (case opt_indentSize options of None \<Rightarrow> Fin 2 | Some n \<Rightarrow> n);
          maxDepth = (case opt_maxDepth options of None \<Rightarrow> Fin 10 | Some n \<Rightarrow> n);
          showArrayIndex = (case opt_showArrayIndex options of None \<Rightarrow> True | Some b \<Rightarrow> b)
      in case space_repeat (num_mul currentDepth indentSize) of
           Inl e \<Rightarrow> Some ([], Some e)
         | Inr indent \<Rightarrow>
             if num_gt currentDepth maxDepth
             then Some ([indent @ prefix @ ''... [max depth reached]''], None)
             else if obj = JNull \<or> obj = JUndefined \<or> typeof h obj \<noteq> ''object''
             then Some ([indent @ prefix @ js_String number_text h obj], None)
             else
               (case array_items h obj of
                  Some items \<Rightarrow>
                    if length items = 0 then Some ([indent @ prefix @ ''[]''], None)
                    else bracketed (indent @ prefix @ ''['') (indent @ '']'')
                      (each_call
                        (\<lambda>(index, item).
                           debugObject fuel number_text h item options (num_succ currentDepth)
                             (if showArrayIndex then index @ '': '' else []))
                        (indexed 0 items))
                | None \<Rightarrow>
                    (let keys = map fst (own_props h obj)
                     in if length keys = 0 then Some ([indent @ prefix @ ''{}''], None)
                        else bracketed (indent @ prefix @ ''{'') (indent @ ''}'')
                          (each_call
                            (\<lambda>key.
                               debugObject fuel number_text h (get_prop (own_props h obj) key)
                                 options (num_succ currentDepth) (key @ '': ''))
                            keys))))"

text \<open>
  \<^verbatim>\<open>buildDebugTree\<close> reads its argument like a DOM element, whatever it is. An array-like
  member is its \<^verbatim>\<open>length\<close>, a number, and its elements by index.
\<close>

record 'a array_like =
  al_length :: jsnum
  al_item :: "nat \<Rightarrow> 'a"

text \<open>\<^verbatim>\<open>for (let i = 0; i < x.length; i++)\<close>: the number of rounds, and \<open>None\<close> for a loop
  that never ends: an infinite length is never reached, and \<open>i\<close> stays at \<open>2^53\<close> once it
  is there.\<close>

fun loop_rounds :: "jsnum \<Rightarrow> nat option" where
  "loop_rounds NaN = Some 0"
| "loop_rounds NegInf = Some 0"
| "loop_rounds PosInf = None"
| "loop_rounds (Fin n) = (if n \<le> 2 ^ 53 then Some (nat n) else None)"

definition loop_items :: "'a array_like \<Rightarrow> 'a list option" where
  "loop_items x = map_option (\<lambda>n. map (al_item x) [0 ..< n]) (loop_rounds (al_length x))"

text \<open>
  What \<^verbatim>\<open>buildDebugTree\<close> reads of an object: \<^verbatim>\<open>tagName\<close>; \<^verbatim>\<open>attributes\<close>, name and value
  of each (\<open>None\<close> when \<^verbatim>\<open>hasAttributes\<close> is missing or answers false); \<^verbatim>\<open>style\<close>, the
  property names by \<^verbatim>\<open>item(i)\<close> (\<open>None\<close> when missing) and \<^verbatim>\<open>getPropertyValue\<close>;
  \<^verbatim>\<open>textContent\<close>, in UTF-16 code units (empty when missing); \<^verbatim>\<open>children\<close> (\<open>None\<close> when
  missing); and the members of \<^verbatim>\<open>getBoundingClientRect()\<close> (\<open>None\<close> when that is not a
  function). The children are values, so that an object may be its own descendant.
\<close>

record element =
  el_tagName :: jsval
  el_attributes :: "(string \<times> string) array_like option"
  el_style :: "string array_like option"
  el_style_value :: "string \<Rightarrow> string"
  el_textContent :: "nat list"
  el_children :: "jsval array_like option"
  el_rect :: "props option"

type_synonym dom = "nat \<Rightarrow> element"

datatype debug_node =
  DebugNode jsval "(string \<times> string) list" "(string \<times> string) list" "nat list option" jsnum
    "debug_node list" "props option"

text \<open>The value of a decimal text, and the array index a property key is, if it is one:
  the decimal text, without leading zero, of a number below \<open>2^32 - 1\<close>.\<close>

definition undec :: "string \<Rightarrow> nat" where
  "undec k = foldl (\<lambda>a c. 10 * a + digit_val c) 0 k"

definition array_index :: "string \<Rightarrow> nat option" where
  "array_index k =
     (if k \<noteq> [] \<and> list_all (\<lambda>c. c \<in> set ''0123456789'') k
         \<and> (k = ''0'' \<or> hd k \<noteq> CHR ''0'') \<and> undec k < 4294967295
      then Some (undec k) else None)"

text \<open>\<^verbatim>\<open>o[k] = v\<close> on an object made by \<^verbatim>\<open>{}\<close>, as the list of its own properties in the
  order \<^verbatim>\<open>JSON.stringify\<close> and \<^verbatim>\<open>Object.keys\<close> enumerate them: the array indices first,
  ascending, then the other keys in the order of their first assignment. Assigning a
  string to \<^verbatim>\<open>__proto__\<close> changes nothing.\<close>

fun insert_index :: "nat \<Rightarrow> string \<Rightarrow> 'v \<Rightarrow> (string \<times> 'v) list \<Rightarrow> (string \<times> 'v) list" where
  "insert_index n k v [] = [(k, v)]"
| "insert_index n k v ((k', v') # ps) =
     (case array_index k' of
        Some n' \<Rightarrow> if n' < n then (k', v') # insert_index n k v ps else (k, v) # (k', v') # ps
      | None \<Rightarrow> (k, v) # (k', v') # ps)"

definition js_store :: "string \<Rightarrow> string \<Rightarrow> (string \<times> string) list \<Rightarrow> (string \<times> string) list" where
  "js_store k v ps =
     (if k = ''__proto__'' then ps
      else if k \<in> set (map fst ps) then map (\<lambda>kv. if fst kv = k then (k, v) else kv) ps
      else
        (case array_index k of
           Some n \<Rightarrow> insert_index n k v ps
         | None \<Rightarrow> ps @ [(k, v)]))"

text \<open>\<^verbatim>\<open>String.prototype.trim\<close>: the white space and line terminators of the language, as
  code units.\<close>

definition is_js_space :: "nat \<Rightarrow> bool" where
  "is_js_space c =
     (c \<in> set [9, 10, 11, 12, 13, 32, 160, 5760, 8192, 8193, 8194, 8195, 8196, 8197, 8198, 8199,
               8200, 8201, 8202, 8232, 8233, 8239, 8287, 12288, 65279])"

definition js_trim :: "nat list \<Rightarrow> nat list" where
  "js_trim s = rev (dropWhile is_js_space (rev (dropWhile is_js_space s)))"

definition rect_members :: "props \<Rightarrow> props" where
  "rect_members r =
     map (\<lambda>k. (k, get_prop r k))
       [''x'', ''y'', ''width'', ''height'', ''top'', ''right'', ''bottom'', ''left'']"

text \<open>The three loops of \<^verbatim>\<open>buildDebugTree\<close> with their guards: what each one visits, and
  \<open>None\<close> when it never ends.\<close>

definition attribute_list :: "element \<Rightarrow> (string \<times> string) list option" where
  "attribute_list e =
     (case el_attributes e of None \<Rightarrow> Some [] | Some attributes \<Rightarrow> loop_items attributes)"

definition style_names :: "element \<Rightarrow> string list option" where
  "style_names e =
     (case el_style e of
        None \<Rightarrow> Some []
      | Some style \<Rightarrow> if truthy (JNumber (al_length style)) then loop_items style else Some [])"

definition child_list :: "element \<Rightarrow> jsval list option" where
  "child_list e =
     (case el_children e of
        None \<Rightarrow> Some []
      | Some children \<Rightarrow> if num_gt (al_length children) (Fin 0) then loop_items children else Some [])"

text \<open>The loop over \<^verbatim>\<open>element.children\<close>: a child whose node is \<^verbatim>\<open>null\<close> is left out.\<close>

fun collect_children ::
  "(jsval \<Rightarrow> debug_node option option) \<Rightarrow> jsval list \<Rightarrow> debug_node list option" where
  "collect_children f [] = Some []"
| "collect_children f (c # cs) =
     (case f c of
        None \<Rightarrow> None
      | Some childNode \<Rightarrow>
          (case collect_children f cs of
             None \<Rightarrow> None
           | Some nodes \<Rightarrow> Some ((case childNode of None \<Rightarrow> [] | Some n \<Rightarrow> [n]) @ nodes)))"

text \<open>\<^verbatim>\<open>buildDebugTree(element, depth, maxDepth)\<close>: \<open>Some None\<close> is the result \<^verbatim>\<open>null\<close>,
  the outer \<open>None\<close> is a call the fuel does not cover or a loop that never ends. A value
  that is not an object and not false has none of the members read, and gives a node
  without tag or children.\<close>

fun buildDebugTree ::
  "nat \<Rightarrow> dom \<Rightarrow> jsval \<Rightarrow> jsnum \<Rightarrow> jsnum \<Rightarrow> debug_node option option" where
  "buildDebugTree 0 d el depth maxDepth = None"
| "buildDebugTree (Suc fuel) d el depth maxDepth =
     (if \<not> truthy el \<or> num_gt depth maxDepth then Some None
      else
        (case el of
           JRef a \<Rightarrow>
             (case attribute_list (d a) of
                None \<Rightarrow> None
              | Some attributes \<Rightarrow>
                  (case style_names (d a) of
                     None \<Rightarrow> None
                   | Some names \<Rightarrow>
                       (let attrs = fold (\<lambda>attr. js_store (fst attr) (snd attr)) attributes [];
                            styles = fold (\<lambda>propName. js_store propName
                                       (el_style_value (d a) propName)) names [];
                            shortText =
                              (if el_textContent (d a) = [] then None
                               else
                                 let textContent = js_trim (el_textContent (d a))
                                 in Some (if length textContent > 100
                                          then take 100 textContent @ [46, 46, 46]
                                          else textContent))
                        in case child_list (d a) of
                             None \<Rightarrow> None
                           | Some children \<Rightarrow>
                               (case collect_children
                                  (\<lambda>child. buildDebugTree fuel d child (num_succ depth) maxDepth)
                                  children of
                                  None \<Rightarrow> None
                                | Some nodes \<Rightarrow>
                                    Some (Some (DebugNode (el_tagName (d a)) attrs styles
                                      shortText depth nodes
                                      (map_option rect_members (el_rect (d a)))))))))
         | _ \<Rightarrow> Some (Some (DebugNode JUndefined [] [] None depth [] None))))"

section \<open>The resource map reconciliation, as the specification describes it\<close>

text \<open>
  The Python package that merges \<^verbatim>\<open>res_map.json\<close> (fragment loader, key allocator, catalog
  merger, catalog store, readiness broker) is not among the sources of the repository.
  The definitions of this section follow the specification, section by section.
\<close>

subsection \<open>JSON values and catalogs\<close>

text \<open>Modelled from the spec: the parsed content of a fragment file and of a catalog file
  (sections 3 and 6), whose reader is part of the missing Python package. An object is
  the list of its members in the order of the serialized form.\<close>

datatype json =
    JsonNull
  | JsonBool bool
  | JsonNum int
  | JsonStr string
  | JsonArr "json list"
  | JsonObj "(string \<times> json) list"

text \<open>Modelled from the spec: the members of a FragmentItem or of a CatalogEntry (section 3),
  "a mapping of arbitrary key/value pairs", as the missing Fragment Loader reads them.\<close>

type_synonym fields = "(string \<times> json) list"

text \<open>Modelled from the spec: a catalog (original or combined) of the missing Catalog Store,
  a mapping from key to entry, kept in the order of its serialized form.\<close>

type_synonym catalog = "(string \<times> json) list"

text \<open>Modelled from the spec: the normal form behind \<^verbatim>\<open>equals(candidate, existing)\<close> of the
  missing Catalog Store (section 4.4), "deep structural equality, independent of key
  insertion order": the members of every object are put in the order of their keys.\<close>

function canon :: "json \<Rightarrow> json" where
  "canon JsonNull = JsonNull"
| "canon (JsonBool b) = JsonBool b"
| "canon (JsonNum n) = JsonNum n"
| "canon (JsonStr s) = JsonStr s"
| "canon (JsonArr xs) = JsonArr (map canon xs)"
| "canon (JsonObj kvs) = JsonObj (sort_key fst (map (\<lambda>kv. (fst kv, canon (snd kv))) kvs))"
  by pat_completeness auto
termination
proof (relation "measure size")
  fix kvs :: "(string \<times> json) list" and kv
  assume "kv \<in> set kvs"
  then show "(snd kv, JsonObj kvs) \<in> measure size"
    by (induction kvs) auto
next
  fix xs :: "json list" and x
  assume "x \<in> set xs"
  then show "(x, JsonArr xs) \<in> measure size"
    by (induction xs) auto
qed simp

text \<open>Modelled from the spec: \<^verbatim>\<open>equals(candidate, existing)\<close> of the missing Catalog Store
  (section 4.4): the two catalogs have the same normal form.\<close>

definition catalog_equals :: "catalog \<Rightarrow> catalog \<Rightarrow> bool" where
  "catalog_equals candidate existing = (canon (JsonObj candidate) = canon (JsonObj existing))"

subsection \<open>Fragment Loader\<close>

text \<open>Modelled from the spec: the errors the missing pipeline reports (section 7), and the
  error of section 4.1 for an item without a well-formed \<^verbatim>\<open>itemID\<close>, which the taxonomy
  leaves unnamed.\<close>

datatype report =
    FragmentParseError
  | MissingIdentifierError
  | DuplicateIdentifierError string
  | CatalogReadError
  | KeyAllocationExhaustedError string
  | PersistenceError

text \<open>Modelled from the spec: the parse step of the missing Fragment Loader (section 4.1). A
  candidate file is \<open>None\<close> when the relaxed JSON reader rejects it; "a fragment whose
  top-level value is not a list is treated as a parse error".\<close>

definition fragment_items :: "json option \<Rightarrow> report + json list" where
  "fragment_items parsed =
     (case parsed of Some (JsonArr items) \<Rightarrow> Inr items | _ \<Rightarrow> Inl FragmentParseError)"

text \<open>Modelled from the spec: the mandatory field of a FragmentItem of the missing Fragment
  Loader (section 3), "one mandatory field \<^verbatim>\<open>itemID\<close> (string)".\<close>

definition item_id :: "json \<Rightarrow> string option" where
  "item_id item =
     (case item of
        JsonObj members \<Rightarrow>
          (case map_of members ''itemID'' of Some (JsonStr s) \<Rightarrow> Some s | _ \<Rightarrow> None)
      | _ \<Rightarrow> None)"

text \<open>Modelled from the spec: the CatalogEntry of an item of the missing Catalog Merger
  (section 3), "the portion of a FragmentItem excluding \<^verbatim>\<open>itemID\<close>".\<close>

definition item_content :: "json \<Rightarrow> fields" where
  "item_content item =
     (case item of JsonObj members \<Rightarrow> filter (\<lambda>kv. fst kv \<noteq> ''itemID'') members | _ \<Rightarrow> [])"

text \<open>Modelled from the spec: one item in the missing Fragment Loader (section 4.1). The
  state is the accepted items (identifier and content, in order) and the reports. "Each
  item lacking a well-formed string \<^verbatim>\<open>itemID\<close> is skipped with a reported error; duplicate
  \<^verbatim>\<open>itemID\<close> across all fragments (including the same fragment) is an error: the
  later-encountered duplicate is skipped and reported, the first occurrence wins."\<close>

definition accept_item ::
  "json \<Rightarrow> (string \<times> fields) list \<times> report list \<Rightarrow> (string \<times> fields) list \<times> report list" where
  "accept_item item st =
     (case item_id item of
        None \<Rightarrow> (fst st, snd st @ [MissingIdentifierError])
      | Some d \<Rightarrow>
          if d \<in> set (map fst (fst st)) then (fst st, snd st @ [DuplicateIdentifierError d])
          else (fst st @ [(d, item_content item)], snd st))"

text \<open>Modelled from the spec: one file in the missing Fragment Loader (section 4.1), "a
  fragment that fails to parse is skipped with a reported error (its items are excluded
  from the merge; the run continues)".\<close>

definition accept_file ::
  "json option \<Rightarrow> (string \<times> fields) list \<times> report list \<Rightarrow> (string \<times> fields) list \<times> report list" where
  "accept_file parsed st =
     (case fragment_items parsed of
        Inl e \<Rightarrow> (fst st, snd st @ [e])
      | Inr items \<Rightarrow> fold accept_item items st)"

text \<open>Modelled from the spec: the missing Fragment Loader (section 4.1) over the candidate
  files of all roots, in enumeration order.\<close>

definition load_fragments :: "json option list \<Rightarrow> (string \<times> fields) list \<times> report list" where
  "load_fragments files = fold accept_file files ([], [])"

subsection \<open>Key Allocator and Catalog Merger\<close>

text \<open>Modelled from the spec: the candidates of the missing Key Allocator (section 4.2) for
  one item: the hash itself, then "on collision, extend the key with an incrementing
  suffix counter". The counter is written in decimal digits, which are hexadecimal
  digits too.\<close>

definition key_candidate :: "string \<Rightarrow> nat \<Rightarrow> string" where
  "key_candidate base i = (if i = 0 then base else base @ dec i)"

text \<open>Modelled from the spec: the collision policy of the missing Key Allocator (section
  4.2), "until unique": the first candidate that is not a key in use. Among the first
  \<open>length used + 1\<close> candidates one is free, so the search stops there; \<open>None\<close> is the
  exhausted allocation of section 4.3.\<close>

definition allocate_key :: "string list \<Rightarrow> string \<Rightarrow> string option" where
  "allocate_key used base =
     find (\<lambda>k. k \<notin> set used) (map (key_candidate base) [0 ..< Suc (length used)])"

text \<open>Modelled from the spec: the missing Key Allocator (section 4.2) over the accepted
  items. \<open>key_hash\<close> is the hash of section 4.2, a function of the \<^verbatim>\<open>itemID\<close> and the
  entry content that the spec leaves open (section 9); the keys in use are those of the
  original catalog and those allocated so far.\<close>

fun allocate_keys ::
  "(string \<Rightarrow> fields \<Rightarrow> string) \<Rightarrow> string list \<Rightarrow> (string \<times> fields) list \<Rightarrow>
   (string \<times> fields \<times> string option) list" where
  "allocate_keys key_hash used [] = []"
| "allocate_keys key_hash used ((d, content) # items) =
     (case allocate_key used (key_hash d content) of
        None \<Rightarrow> (d, content, None) # allocate_keys key_hash used items
      | Some k \<Rightarrow> (d, content, Some k) # allocate_keys key_hash (k # used) items)"

text \<open>Modelled from the spec: the IdentifierIndex the missing Key Allocator records (section
  4.2), "the final mapping \<^verbatim>\<open>itemID\<close> to generated key", in the order of allocation.\<close>

definition identifier_index_of :: "(string \<times> fields \<times> string option) list \<Rightarrow> (string \<times> string) list" where
  "identifier_index_of allocated =
     concat (map (\<lambda>(d, content, key). case key of None \<Rightarrow> [] | Some k \<Rightarrow> [(d, k)]) allocated)"

text \<open>Modelled from the spec: the entries the missing Catalog Merger adds (section 4.3), "one
  entry per FragmentItem at its allocated key holding the item's content minus
  \<^verbatim>\<open>itemID\<close>"; an item without a key is skipped.\<close>

definition generated_entries :: "(string \<times> fields \<times> string option) list \<Rightarrow> catalog" where
  "generated_entries allocated =
     concat (map (\<lambda>(d, content, key). case key of None \<Rightarrow> [] | Some k \<Rightarrow> [(k, JsonObj content)])
       allocated)"

text \<open>Modelled from the spec: the reports of the missing Catalog Merger (section 4.3) for the
  items it skips.\<close>

definition exhausted_reports :: "(string \<times> fields \<times> string option) list \<Rightarrow> report list" where
  "exhausted_reports allocated =
     concat (map (\<lambda>(d, content, key).
       case key of None \<Rightarrow> [KeyAllocationExhaustedError d] | Some k \<Rightarrow> []) allocated)"

text \<open>Modelled from the spec: the candidate of the missing Catalog Merger (section 4.3),
  "original catalog entries unchanged, plus one entry per FragmentItem".\<close>

definition merge_catalog :: "catalog \<Rightarrow> (string \<times> fields \<times> string option) list \<Rightarrow> catalog" where
  "merge_catalog original allocated = original @ generated_entries allocated"

subsection \<open>Catalog Store and Restart Coordinator\<close>

text \<open>Modelled from the spec: a file of the missing Catalog Store (section 4.4): not there,
  there but unreadable as a catalog, or a catalog.\<close>

datatype 'a disk_file = Missing | Malformed | Content 'a

text \<open>Modelled from the spec: what the missing Catalog Store owns (sections 3 and 4.4): the
  shipped catalog, the persisted combined catalog and the restart flag; \<open>writable\<close> tells
  whether the combined catalog can be written (\<^verbatim>\<open>PersistenceError\<close> of section 7
  otherwise).\<close>

record store =
  original_file :: "catalog disk_file"
  combined_file :: "catalog disk_file"
  restart_flag :: bool
  writable :: bool

text \<open>Modelled from the spec: \<^verbatim>\<open>load_original()\<close> of the missing Catalog Store (section 4.4),
  which "fails with \<^verbatim>\<open>CatalogReadError\<close> if missing or malformed".\<close>

definition load_original :: "store \<Rightarrow> report + catalog" where
  "load_original st =
     (case original_file st of Content c \<Rightarrow> Inr c | _ \<Rightarrow> Inl CatalogReadError)"

text \<open>Modelled from the spec: \<^verbatim>\<open>load_existing_combined()\<close> of the missing Catalog Store
  (section 4.4): "absent" if not found, and a "malformed existing file is treated as
  absent".\<close>

definition load_existing_combined :: "store \<Rightarrow> catalog option" where
  "load_existing_combined st =
     (case combined_file st of Content c \<Rightarrow> Some c | _ \<Rightarrow> None)"

text \<open>Modelled from the spec: \<^verbatim>\<open>persist(candidate)\<close> of the missing Catalog Store (section
  4.4), an atomic replacement; when the file cannot be written the store is as before.\<close>

definition persist :: "catalog \<Rightarrow> store \<Rightarrow> report + store" where
  "persist candidate st =
     (if writable st then Inr (st\<lparr>combined_file := Content candidate\<rparr>) else Inl PersistenceError)"

text \<open>Modelled from the spec: \<^verbatim>\<open>delete_combined()\<close> of the missing Catalog Store (section
  4.4).\<close>

definition delete_combined :: "store \<Rightarrow> store" where
  "delete_combined st = st\<lparr>combined_file := Missing\<rparr>"

text \<open>Modelled from the spec: \<^verbatim>\<open>request_restart()\<close> of the Restart Coordinator (section 4.6),
  which is outside the sources: it "sets the RestartFlag then signals process restart, a
  no-op if the flag is already set". The second component tells whether the restart was
  signalled.\<close>

definition request_restart :: "store \<Rightarrow> store \<times> bool" where
  "request_restart st =
     (if restart_flag st then (st, False) else (st\<lparr>restart_flag := True\<rparr>, True))"

subsection \<open>Readiness Broker\<close>

text \<open>Modelled from the spec: the ReadinessState of the missing Readiness Broker (section
  3).\<close>

datatype readiness = Pending | Validated

text \<open>Modelled from the spec: the state of the missing Readiness Broker (sections 3 and 4.5):
  the readiness, the queued callbacks in registration order, the IdentifierIndex, and the
  callbacks invoked so far, oldest first.\<close>

record 'cb broker =
  readiness :: readiness
  queue :: "'cb list"
  invoked :: "'cb list"
  identifier_index :: "(string \<times> string) list"

text \<open>Modelled from the spec: the missing Readiness Broker at process start.\<close>

definition new_broker :: "'cb broker" where
  "new_broker = \<lparr>readiness = Pending, queue = [], invoked = [], identifier_index = []\<rparr>"

text \<open>Modelled from the spec: \<^verbatim>\<open>on_ready(callback)\<close> of the missing Readiness Broker (section
  4.5): "if ReadinessState is already Validated, invoke callback synchronously and
  immediately; otherwise queue it".\<close>

definition on_ready :: "'cb \<Rightarrow> 'cb broker \<Rightarrow> 'cb broker" where
  "on_ready callback b =
     (if readiness b = Validated then b\<lparr>invoked := invoked b @ [callback]\<rparr>
      else b\<lparr>queue := queue b @ [callback]\<rparr>)"

text \<open>Modelled from the spec: the moment validation succeeds in the missing Readiness Broker
  (sections 3 and 4.5): the only transition is from Pending to Validated, and it invokes
  the queued callbacks "exactly once, in registration order".\<close>

definition mark_validated :: "'cb broker \<Rightarrow> 'cb broker" where
  "mark_validated b =
     (if readiness b = Validated then b
      else b\<lparr>readiness := Validated, invoked := invoked b @ queue b, queue := []\<rparr>)"

subsection \<open>The pipeline\<close>

text \<open>Modelled from the spec: what a run of the missing pipeline calls, in order (the calls
  the properties of section 8 speak of); \<open>RequestRestart\<close> is the call of
  \<^verbatim>\<open>request_restart()\<close>.\<close>

datatype action =
    DeleteCombined
  | Persist catalog
  | RequestRestart
  | ClearRestartFlag
  | MarkValidated

text \<open>Modelled from the spec: what a run of the missing pipeline leaves: the store, the
  broker, the calls made, the errors reported, and whether the Restart Coordinator
  signalled a restart (section 4.6: a call of \<^verbatim>\<open>request_restart()\<close> signals none when the
  flag is already set).\<close>

record 'cb outcome =
  final_store :: store
  final_broker :: "'cb broker"
  actions :: "action list"
  reports :: "report list"
  restart_signalled :: bool

text \<open>Modelled from the spec: the accepted items of a run of the missing pipeline with their
  keys (sections 4.1 and 4.2): the loader over the files, then the allocator against the
  keys of the original catalog.\<close>

definition allocated_items ::
  "(string \<Rightarrow> fields \<Rightarrow> string) \<Rightarrow> json option list \<Rightarrow> catalog \<Rightarrow>
   (string \<times> fields \<times> string option) list" where
  "allocated_items key_hash files original =
     allocate_keys key_hash (map fst original) (fst (load_fragments files))"

text \<open>Modelled from the spec: the candidate combined catalog of the missing Catalog Merger
  (section 4.3) for the files and the original catalog of a run.\<close>

definition build_candidate ::
  "(string \<Rightarrow> fields \<Rightarrow> string) \<Rightarrow> json option list \<Rightarrow> catalog \<Rightarrow> catalog" where
  "build_candidate key_hash files original =
     merge_catalog original (allocated_items key_hash files original)"

text \<open>Modelled from the spec: paths 3 and 5 of the missing pipeline (section 4.4), "persist
  candidate, request restart", with the \<^verbatim>\<open>PersistenceError\<close> of section 7: "fatal for this
  run, no restart requested, previous combined catalog remains authoritative".\<close>

definition persist_and_restart ::
  "catalog \<Rightarrow> report list \<Rightarrow> store \<Rightarrow> 'cb broker \<Rightarrow> 'cb outcome" where
  "persist_and_restart candidate rs st b =
     (case persist candidate st of
        Inl e \<Rightarrow>
          \<lparr>final_store = st, final_broker = b, actions = [Persist candidate], reports = rs @ [e],
           restart_signalled = False\<rparr>
      | Inr st' \<Rightarrow>
          \<lparr>final_store = fst (request_restart st'), final_broker = b,
           actions = [Persist candidate, RequestRestart], reports = rs,
           restart_signalled = snd (request_restart st')\<rparr>)"

text \<open>Modelled from the spec: one run of the missing pipeline, the state machine of section
  4.4 with the readiness rules of section 4.5. Paths 1 and 2 (no fragment file) and path 4
  (candidate equal to the persisted catalog) end without a restart and validate; a
  \<^verbatim>\<open>CatalogReadError\<close> aborts the run before anything is written.\<close>

definition run ::
  "(string \<Rightarrow> fields \<Rightarrow> string) \<Rightarrow> json option list \<Rightarrow> store \<Rightarrow> 'cb broker \<Rightarrow> 'cb outcome" where
  "run key_hash files st b =
     (if files = [] then
        (if combined_file st = Missing
         then \<lparr>final_store = st, final_broker = mark_validated b,
               actions = [MarkValidated], reports = [], restart_signalled = False\<rparr>
         else \<lparr>final_store = delete_combined st, final_broker = mark_validated b,
               actions = [DeleteCombined, MarkValidated], reports = [],
               restart_signalled = False\<rparr>)
      else
        (case load_original st of
           Inl e \<Rightarrow>
             \<lparr>final_store = st, final_broker = b, actions = [], reports = [e],
              restart_signalled = False\<rparr>
         | Inr original \<Rightarrow>
             (let allocated = allocated_items key_hash files original;
                  candidate = merge_catalog original allocated;
                  rs = snd (load_fragments files) @ exhausted_reports allocated;
                  b' = b\<lparr>identifier_index := identifier_index_of allocated\<rparr>
              in case load_existing_combined st of
                   None \<Rightarrow> persist_and_restart candidate rs st b'
                 | Some existing \<Rightarrow>
                     if catalog_equals candidate existing
                     then \<lparr>final_store = st\<lparr>restart_flag := False\<rparr>,
                           final_broker = mark_validated b',
                           actions = [ClearRestartFlag, MarkValidated], reports = rs,
                           restart_signalled = False\<rparr>
                     else persist_and_restart candidate rs st b')))"

subsection \<open>Vocabulary of the properties\<close>

text \<open>Modelled from the spec: the FragmentItems of all fragments that parse, in enumeration
  order, as the missing Fragment Loader meets them (section 4.1).\<close>

definition all_items :: "json option list \<Rightarrow> json list" where
  "all_items files =
     concat (map (\<lambda>parsed. case fragment_items parsed of Inl e \<Rightarrow> [] | Inr items \<Rightarrow> items) files)"

text \<open>Modelled from the spec: the contents of the items that declare a given \<^verbatim>\<open>itemID\<close>, first
  encountered first ("the first occurrence wins", section 4.1).\<close>

definition declarations :: "string \<Rightarrow> json list \<Rightarrow> fields list" where
  "declarations d items = map item_content (filter (\<lambda>item. item_id item = Some d) items)"

text \<open>Modelled from the spec: what the missing Fragment Loader adds for a sequence of items
  when the identifiers in \<open>seen\<close> are taken (section 4.1): one accepted item per new
  identifier, with the content of its first declaration, and one
  \<^verbatim>\<open>DuplicateIdentifierError\<close> per later declaration.\<close>

definition loaded ::
  "string set \<Rightarrow> json list \<Rightarrow> (string \<times> fields) list \<Rightarrow> report list \<Rightarrow> bool" where
  "loaded seen items new rs =
     (distinct (map fst new)
      \<and> set (map fst new) = {d. declarations d items \<noteq> []} - seen
      \<and> (\<forall>d. d \<notin> seen \<longrightarrow> declarations d items \<noteq> [] \<longrightarrow>
             (d, hd (declarations d items)) \<in> set new)
      \<and> (\<forall>d. count_list rs (DuplicateIdentifierError d) =
             (if d \<in> seen then length (declarations d items)
              else length (declarations d items) - 1)))"

subsection \<open>A worked example\<close>

text \<open>Modelled from the spec: an input for the missing pipeline, after the examples of
  section 8: three fragment files, the second unreadable, the third declaring
  \<^verbatim>\<open>dup/key\<close> again; a hash that maps every item to the key \<^verbatim>\<open>a1\<close>, which the original
  catalog already holds, so that every allocation collides.\<close>

definition example_files :: "json option list" where
  "example_files =
     [Some (JsonArr
        [JsonObj [(''itemID'', JsonStr ''dup/key''), (''type'', JsonStr ''String'')],
         JsonObj [(''itemID'', JsonStr ''a/x''), (''v'', JsonNum 1)]]),
      None,
      Some (JsonArr [JsonObj [(''itemID'', JsonStr ''dup/key''), (''type'', JsonStr ''Layout'')]])]"

text \<open>Modelled from the spec: a hash for the missing Key Allocator (section 4.2) that maps
  every item to \<^verbatim>\<open>a1\<close>.\<close>

definition example_hash :: "string \<Rightarrow> fields \<Rightarrow> string" where
  "example_hash d content = ''a1''"

text \<open>Modelled from the spec: an original catalog for the missing Catalog Store (section
  4.4), with the one key \<^verbatim>\<open>a1\<close>.\<close>

definition example_original :: catalog where
  "example_original = [(''a1'', JsonObj [(''type'', JsonStr ''Image'')])]"

text \<open>Modelled from the spec: a store for the missing Catalog Store (section 4.4) before the
  first run: the original catalog, no combined catalog, no restart flag, writable.\<close>

definition example_store :: store where
  "example_store =
     \<lparr>original_file = Content example_original, combined_file = Missing,
      restart_flag = False, writable = True\<rparr>"

section \<open>Properties of the view events\<close>

lemma serializeEventArgument_result:
  "snd (serializeEventArgument h v) =
     (if typeof h v = ''number'' then Some [(''number'', v)]
      else if typeof h v = ''boolean'' then Some [(''bool'', v)]
      else if typeof h v = ''string'' then Some [(''string'', v)]
      else None)"
  by (cases v) (auto simp: serializeEventArgument_def split: jsobj.splits)

lemma createViewEventArguments_step_result:
  "snd (createViewEventArguments_step h kv st) =
     snd st @
       (if typeof h (snd kv) \<in> {''number'', ''boolean'', ''string''}
        then [[(''__Type'', JString ''GFValueProxy''), (''name'', JString (fst kv)),
               (if typeof h (snd kv) = ''number'' then ''number''
                else if typeof h (snd kv) = ''boolean'' then ''bool'' else ''string'', snd kv)]]
        else [])"
  unfolding createViewEventArguments_step_def
  using serializeEventArgument_result[of h "snd kv"]
  by (cases "serializeEventArgument h (snd kv)")
     (auto simp: assign_props_def split: option.splits if_splits)

lemma createViewEventArguments_fold_result:
  "snd (fold (createViewEventArguments_step h) entries st) =
     snd st @
       map (\<lambda>kv. [(''__Type'', JString ''GFValueProxy''), (''name'', JString (fst kv)),
                  (if typeof h (snd kv) = ''number'' then ''number''
                   else if typeof h (snd kv) = ''boolean'' then ''bool'' else ''string'', snd kv)])
         (filter (\<lambda>kv. typeof h (snd kv) \<in> {''number'', ''boolean'', ''string''}) entries)"
  by (induction entries arbitrary: st) (simp_all add: createViewEventArguments_step_result)

text \<open>
  C9. \<^verbatim>\<open>serializeEventArgument(v)\<close> returns \<^verbatim>\<open>{number: v}\<close> for a number, \<^verbatim>\<open>{bool: v}\<close> for a
  boolean, \<^verbatim>\<open>{string: v}\<close> for a string and \<^verbatim>\<open>undefined\<close> for every other value, \<^verbatim>\<open>null\<close>
  and \<^verbatim>\<open>undefined\<close> included. So \<^verbatim>\<open>createViewEventArguments(args)\<close> returns one
  \<^verbatim>\<open>GFValueProxy\<close> object for each entry of \<^verbatim>\<open>Object.entries(args)\<close> whose value has one of
  the three types, in the order of the entries, and nothing for the other keys.
\<close>

theorem createViewEventArguments_by_type:
  "snd (serializeEventArgument h v) =
     (if typeof h v = ''number'' then Some [(''number'', v)]
      else if typeof h v = ''boolean'' then Some [(''bool'', v)]
      else if typeof h v = ''string'' then Some [(''string'', v)]
      else None)
   \<and> (typeof h v = ''number'' \<longleftrightarrow> (\<exists>n. v = JNumber n))
   \<and> (typeof h v = ''boolean'' \<longleftrightarrow> (\<exists>b. v = JBool b))
   \<and> (typeof h v = ''string'' \<longleftrightarrow> (\<exists>s. v = JString s))
   \<and> (object_entries h args = Inr entries \<longrightarrow>
        (\<exists>warnings. createViewEventArguments h args = Inr (warnings,
           map (\<lambda>kv. [(''__Type'', JString ''GFValueProxy''), (''name'', JString (fst kv)),
                      (if typeof h (snd kv) = ''number'' then ''number''
                       else if typeof h (snd kv) = ''boolean'' then ''bool'' else ''string'',
                       snd kv)])
             (filter (\<lambda>kv. typeof h (snd kv) \<in> {''number'', ''boolean'', ''string''}) entries))))"
proof -
  have types: "(typeof h v = ''number'' \<longleftrightarrow> (\<exists>n. v = JNumber n))
      \<and> (typeof h v = ''boolean'' \<longleftrightarrow> (\<exists>b. v = JBool b))
      \<and> (typeof h v = ''string'' \<longleftrightarrow> (\<exists>s. v = JString s))"
    by (cases v) (auto split: jsobj.splits)
  have "object_entries h args = Inr entries \<Longrightarrow>
      createViewEventArguments h args =
        Inr (fst (fold (createViewEventArguments_step h) entries ([], [])),
             snd (fold (createViewEventArguments_step h) entries ([], [])))"
    by (simp add: createViewEventArguments_def)
  then show ?thesis
    using types serializeEventArgument_result[of h v]
    by (simp add: createViewEventArguments_fold_result)
qed

theorem createViewEventArguments_by_type_witness:
  "object_entries
     (heap_of [PlainObject [(''body'', JString ''text''), (''skip'', JNull),
                            (''on'', JBool True), (''f'', JRef 1), (''n'', JNumber (Fin 3))],
               FunctionObject ''() => 0''])
     (JRef 0)
   = Inr [(''body'', JString ''text''), (''skip'', JNull), (''on'', JBool True), (''f'', JRef 1),
          (''n'', JNumber (Fin 3))]
   \<and> snd (serializeEventArgument
        (heap_of [PlainObject [(''body'', JString ''text''), (''skip'', JNull),
                               (''on'', JBool True), (''f'', JRef 1), (''n'', JNumber (Fin 3))],
                  FunctionObject ''() => 0''])
        JNull) = None
   \<and> (\<exists>warnings. createViewEventArguments
        (heap_of [PlainObject [(''body'', JString ''text''), (''skip'', JNull),
                               (''on'', JBool True), (''f'', JRef 1), (''n'', JNumber (Fin 3))],
                  FunctionObject ''() => 0''])
        (JRef 0)
      = Inr (warnings,
          [[(''__Type'', JString ''GFValueProxy''), (''name'', JString ''body''),
            (''string'', JString ''text'')],
           [(''__Type'', JString ''GFValueProxy''), (''name'', JString ''on''),
            (''bool'', JBool True)],
           [(''__Type'', JString ''GFValueProxy''), (''name'', JString ''n''),
            (''number'', JNumber (Fin 3))]]))"
  using createViewEventArguments_by_type
    [of "heap_of [PlainObject [(''body'', JString ''text''), (''skip'', JNull),
                               (''on'', JBool True), (''f'', JRef 1), (''n'', JNumber (Fin 3))],
                  FunctionObject ''() => 0'']"
        JNull "JRef 0"
        "[(''body'', JString ''text''), (''skip'', JNull), (''on'', JBool True), (''f'', JRef 1),
          (''n'', JNumber (Fin 3))]"]
  by (simp add: heap_of_def)

section \<open>Properties of the resource injector\<close>

lemma fold_inject_one:
  "fold (inject_one h t) assets st =
     st\<lparr>body := body st @
        map (\<lambda>url. \<lparr>tagName = at_tag t,
               el_props = assign_props
                 (if at_type t = ''styles'' then [(''crossOrigin'', JString []), (''href'', url)]
                  else [(''crossOrigin'', JString []), (''src'', url), (''defer'', JBool True)])
                 (assign_props [] (at_defaults t))\<rparr>)
          (filter truthy (map (\<lambda>asset. member_of h asset ''value'') assets))\<rparr>"
  by (induction assets arbitrary: st) (simp_all add: inject_one_def injectAsset_def)

lemma inject_types_ids: "injectedResIds (fst (inject_types h fm ts st)) = injectedResIds st"
  by (induction ts arbitrary: st) (simp_all add: fold_inject_one split: sum.splits)

lemma inject_types_assetTypes:
  assumes "optional_forEach h (member_of h fm ''styles'') = Inr a"
      and "optional_forEach h (member_of h fm ''scripts'') = Inr b"
      and "optional_forEach h (member_of h fm ''modules'') = Inr c"
  shows "inject_types h fm assetTypes st =
     (st\<lparr>body := body st @ map link_element (asset_urls h fm ''styles'')
          @ map (script_element ''text/javascript'') (asset_urls h fm ''scripts'')
          @ map (script_element ''module'') (asset_urls h fm ''modules'')\<rparr>, None)"
  using assms
  by (simp add: assetTypes_def fold_inject_one asset_urls_def link_element_def
      script_element_def assign_props_def)

lemma asset_urls_absent:
  "member_of h fm ty = JUndefined \<or> member_of h fm ty = JNull \<Longrightarrow> asset_urls h fm ty = []"
  by (auto simp: asset_urls_def)

lemma asset_urls_present:
  "member_of h fm ty = JRef a \<Longrightarrow> h a = ArrayObject assets \<Longrightarrow>
   asset_urls h fm ty = filter truthy (map (\<lambda>asset. member_of h asset ''value'') assets)"
  by (simp add: asset_urls_def)

text \<open>
  C7. The model the injector reads has three optional asset lists, \<^verbatim>\<open>styles\<close>, \<^verbatim>\<open>scripts\<close>
  and \<^verbatim>\<open>modules\<close>. For a subView not yet injected whose \<^verbatim>\<open>ModInjectModel\<close> has each list
  absent or an array, \<^verbatim>\<open>injectModAssets\<close> appends to the body, in this order, one \<^verbatim>\<open>link\<close>
  element with \<^verbatim>\<open>rel = "stylesheet"\<close> and \<^verbatim>\<open>href\<close> the URL for each style, one \<^verbatim>\<open>script\<close>
  element of type \<^verbatim>\<open>text/javascript\<close> for each classic script and one of type \<^verbatim>\<open>module\<close>
  for each module script, the URL in \<^verbatim>\<open>src\<close>. The URLs of a list are the \<^verbatim>\<open>value\<close>s of its
  assets that have one; an absent list has none.
\<close>

theorem injectModAssets_elements:
  assumes "resId \<notin> injectedResIds st"
      and "member_of h (member_of h (subViews resId) ''model'') ''ModInjectModel'' = fm"
      and "truthy fm"
      and "\<forall>ty \<in> {''styles'', ''scripts'', ''modules''}.
             \<exists>assets. optional_forEach h (member_of h fm ty) = Inr assets"
  shows "map at_type assetTypes = [''styles'', ''scripts'', ''modules'']
       \<and> injectModAssets h subViews resId st =
           (st\<lparr>injectedResIds := insert resId (injectedResIds st),
               body := body st @ map link_element (asset_urls h fm ''styles'')
                 @ map (script_element ''text/javascript'') (asset_urls h fm ''scripts'')
                 @ map (script_element ''module'') (asset_urls h fm ''modules'')\<rparr>, None)
       \<and> (\<forall>ty. member_of h fm ty = JUndefined \<or> member_of h fm ty = JNull \<longrightarrow>
              asset_urls h fm ty = [])
       \<and> (\<forall>ty a assets. member_of h fm ty = JRef a \<and> h a = ArrayObject assets \<longrightarrow>
              asset_urls h fm ty =
                filter truthy (map (\<lambda>asset. member_of h asset ''value'') assets))"
proof -
  obtain a b c where lists:
    "optional_forEach h (member_of h fm ''styles'') = Inr a"
    "optional_forEach h (member_of h fm ''scripts'') = Inr b"
    "optional_forEach h (member_of h fm ''modules'') = Inr c"
    using assms(4) by auto
  have types: "map at_type assetTypes = [''styles'', ''scripts'', ''modules'']"
    by (simp add: assetTypes_def)
  have "injectModAssets h subViews resId st =
      inject_types h fm assetTypes (st\<lparr>injectedResIds := insert resId (injectedResIds st)\<rparr>)"
    using assms(1,2,3) by (simp add: injectModAssets_def)
  then have appended: "injectModAssets h subViews resId st =
           (st\<lparr>injectedResIds := insert resId (injectedResIds st),
               body := body st @ map link_element (asset_urls h fm ''styles'')
                 @ map (script_element ''text/javascript'') (asset_urls h fm ''scripts'')
                 @ map (script_element ''module'') (asset_urls h fm ''modules'')\<rparr>, None)"
    by (simp add: inject_types_assetTypes[OF lists])
  show ?thesis
    using types appended asset_urls_absent[of h fm] asset_urls_present[of h fm]
    by blast
qed

theorem injectModAssets_elements_witness:
  "injectModAssets
     (heap_of
       [PlainObject [(''model'', JRef 1)],
        PlainObject [(''ModInjectModel'', JRef 2)],
        PlainObject [(''name'', JString ''MyModAlias''), (''styles'', JRef 3), (''modules'', JRef 4)],
        ArrayObject [JRef 5],
        ArrayObject [JRef 6, JRef 7],
        PlainObject [(''value'', JString ''coui://gui/gameface/mods/MyMod/style.css'')],
        PlainObject [(''value'', JString ''coui://gui/gameface/mods/MyMod/script.js'')],
        PlainObject []])
     (\<lambda>resId. if resId = JNumber (Fin 12) then JRef 0 else JUndefined)
     (JNumber (Fin 12))
     \<lparr>injectedResIds = {}, body = []\<rparr>
   = (\<lparr>injectedResIds = {JNumber (Fin 12)},
       body =
         [\<lparr>tagName = ''link'',
           el_props = [(''crossOrigin'', JString []),
                       (''href'', JString ''coui://gui/gameface/mods/MyMod/style.css''),
                       (''rel'', JString ''stylesheet'')]\<rparr>,
          \<lparr>tagName = ''script'',
           el_props = [(''crossOrigin'', JString []),
                       (''src'', JString ''coui://gui/gameface/mods/MyMod/script.js''),
                       (''defer'', JBool True), (''type'', JString ''module'')]\<rparr>]\<rparr>,
      None)"
proof -
  let ?h = "heap_of
       [PlainObject [(''model'', JRef 1)],
        PlainObject [(''ModInjectModel'', JRef 2)],
        PlainObject [(''name'', JString ''MyModAlias''), (''styles'', JRef 3), (''modules'', JRef 4)],
        ArrayObject [JRef 5],
        ArrayObject [JRef 6, JRef 7],
        PlainObject [(''value'', JString ''coui://gui/gameface/mods/MyMod/style.css'')],
        PlainObject [(''value'', JString ''coui://gui/gameface/mods/MyMod/script.js'')],
        PlainObject []]"
  let ?sv = "\<lambda>resId. if resId = JNumber (Fin 12) then JRef 0 else JUndefined"
  let ?st = "\<lparr>injectedResIds = {}, body = []\<rparr>"
  have 1: "JNumber (Fin 12) \<notin> injectedResIds ?st" by simp
  have 2: "member_of ?h (member_of ?h (?sv (JNumber (Fin 12))) ''model'') ''ModInjectModel'' = JRef 2"
    by (simp add: heap_of_def)
  have 3: "truthy (JRef 2)" by simp
  have 4: "\<forall>ty \<in> {''styles'', ''scripts'', ''modules''}.
             \<exists>assets. optional_forEach ?h (member_of ?h (JRef 2) ty) = Inr assets"
    by (simp add: heap_of_def)
  show ?thesis
    using injectModAssets_elements
      [where resId = "JNumber (Fin 12)" and st = ?st and h = ?h and subViews = ?sv
         and fm = "JRef 2", OF 1 2 3 4]
    by (simp add: asset_urls_def heap_of_def link_element_def script_element_def)
qed

text \<open>
  C8. Injection happens once per subView. A call of \<^verbatim>\<open>injectModAssets(resId)\<close> for a recorded
  \<open>resId\<close> changes nothing. A call that finds a \<^verbatim>\<open>ModInjectModel\<close> records \<open>resId\<close> (before it
  injects, so also when the injection throws), hence every later call with that \<open>resId\<close>,
  whatever the subViews then are, appends nothing. A call that finds no model leaves the
  state as it was, \<open>resId\<close> not recorded, so a later call still looks for the model.
\<close>

theorem injectModAssets_once:
  "(resId \<in> injectedResIds st \<longrightarrow> injectModAssets h subViews resId st = (st, None))
   \<and> (resId \<notin> injectedResIds st
        \<and> truthy (member_of h (member_of h (subViews resId) ''model'') ''ModInjectModel'') \<longrightarrow>
      resId \<in> injectedResIds (fst (injectModAssets h subViews resId st))
      \<and> (\<forall>h' subViews'.
            injectModAssets h' subViews' resId (fst (injectModAssets h subViews resId st)) =
              (fst (injectModAssets h subViews resId st), None)))
   \<and> (resId \<notin> injectedResIds st
        \<and> \<not> truthy (member_of h (member_of h (subViews resId) ''model'') ''ModInjectModel'') \<longrightarrow>
      injectModAssets h subViews resId st = (st, None))"
proof -
  have recorded: "resId \<in> injectedResIds st' \<Longrightarrow> injectModAssets h' subViews' resId st' = (st', None)"
    for st' h' subViews'
    by (simp add: injectModAssets_def)
  have "resId \<in> injectedResIds (fst (injectModAssets h subViews resId st))"
    if "resId \<notin> injectedResIds st"
      "truthy (member_of h (member_of h (subViews resId) ''model'') ''ModInjectModel'')"
    using that by (simp add: injectModAssets_def inject_types_ids)
  then show ?thesis
    using recorded by (auto simp: injectModAssets_def)
qed

theorem injectModAssets_once_witness:
  "injectModAssets
     (heap_of [PlainObject [(''model'', JRef 1)], PlainObject []])
     (\<lambda>resId. JRef 0) (JNumber (Fin 12)) \<lparr>injectedResIds = {}, body = []\<rparr>
   = (\<lparr>injectedResIds = {}, body = []\<rparr>, None)
   \<and> JNumber (Fin 12) \<in> injectedResIds (fst (injectModAssets
        (heap_of [PlainObject [(''model'', JRef 1)], PlainObject [(''ModInjectModel'', JRef 2)],
                  PlainObject [(''styles'', JRef 3)], ArrayObject [JRef 4],
                  PlainObject [(''value'', JString ''a.css'')]])
        (\<lambda>resId. JRef 0) (JNumber (Fin 12)) \<lparr>injectedResIds = {}, body = []\<rparr>))
   \<and> injectModAssets
        (heap_of [PlainObject [(''model'', JRef 1)], PlainObject [(''ModInjectModel'', JRef 2)],
                  PlainObject [(''styles'', JRef 3)], ArrayObject [JRef 4],
                  PlainObject [(''value'', JString ''a.css'')]])
        (\<lambda>resId. JRef 0) (JNumber (Fin 12))
        (fst (injectModAssets
          (heap_of [PlainObject [(''model'', JRef 1)], PlainObject [(''ModInjectModel'', JRef 2)],
                    PlainObject [(''styles'', JRef 3)], ArrayObject [JRef 4],
                    PlainObject [(''value'', JString ''a.css'')]])
          (\<lambda>resId. JRef 0) (JNumber (Fin 12)) \<lparr>injectedResIds = {}, body = []\<rparr>))
     = (\<lparr>injectedResIds = {JNumber (Fin 12)}, body = [link_element (JString ''a.css'')]\<rparr>, None)"
proof -
  let ?g = "heap_of [PlainObject [(''model'', JRef 1)], PlainObject []]"
  let ?h = "heap_of [PlainObject [(''model'', JRef 1)], PlainObject [(''ModInjectModel'', JRef 2)],
                  PlainObject [(''styles'', JRef 3)], ArrayObject [JRef 4],
                  PlainObject [(''value'', JString ''a.css'')]]"
  let ?st = "\<lparr>injectedResIds = {}, body = []\<rparr>"
  have first: "fst (injectModAssets ?h (\<lambda>resId. JRef 0) (JNumber (Fin 12)) ?st) =
      \<lparr>injectedResIds = {JNumber (Fin 12)}, body = [link_element (JString ''a.css'')]\<rparr>"
    by (simp add: injectModAssets_def heap_of_def assetTypes_def inject_one_def injectAsset_def
        assign_props_def link_element_def)
  have fresh: "JNumber (Fin 12) \<notin> injectedResIds ?st" by simp
  have no_model: "\<not> truthy (member_of ?g (member_of ?g (JRef 0) ''model'') ''ModInjectModel'')"
    by (simp add: heap_of_def)
  have model: "truthy (member_of ?h (member_of ?h (JRef 0) ''model'') ''ModInjectModel'')"
    by (simp add: heap_of_def)
  have skipped: "injectModAssets ?g (\<lambda>resId. JRef 0) (JNumber (Fin 12)) ?st = (?st, None)"
    using injectModAssets_once[of "JNumber (Fin 12)" ?st ?g "\<lambda>resId. JRef 0"] fresh no_model
    by blast
  have again: "\<forall>h' subViews'. injectModAssets h' subViews' (JNumber (Fin 12))
       (fst (injectModAssets ?h (\<lambda>resId. JRef 0) (JNumber (Fin 12)) ?st)) =
       (fst (injectModAssets ?h (\<lambda>resId. JRef 0) (JNumber (Fin 12)) ?st), None)"
    using injectModAssets_once[of "JNumber (Fin 12)" ?st ?h "\<lambda>resId. JRef 0"] fresh model
    by blast
  have recorded: "JNumber (Fin 12) \<in>
      injectedResIds (fst (injectModAssets ?h (\<lambda>resId. JRef 0) (JNumber (Fin 12)) ?st))"
    unfolding first by simp
  have nothing_more: "injectModAssets ?h (\<lambda>resId. JRef 0) (JNumber (Fin 12))
        (fst (injectModAssets ?h (\<lambda>resId. JRef 0) (JNumber (Fin 12)) ?st))
     = (\<lparr>injectedResIds = {JNumber (Fin 12)}, body = [link_element (JString ''a.css'')]\<rparr>, None)"
    using again unfolding first by blast
  show ?thesis
    using skipped recorded nothing_more by (intro conjI)
qed

section \<open>Termination of the debug helpers\<close>

lemma each_call_returns: "(\<And>x. x \<in> set xs \<Longrightarrow> f x \<noteq> None) \<Longrightarrow> each_call f xs \<noteq> None"
  by (induction xs) (auto split: option.splits prod.splits)

lemma bracketed_returns: "r \<noteq> None \<Longrightarrow> bracketed a b r \<noteq> None"
  by (auto simp: bracketed_def split: option.splits prod.splits)

lemma collect_children_returns:
  "(\<And>c. c \<in> set cs \<Longrightarrow> f c \<noteq> None) \<Longrightarrow> collect_children f cs \<noteq> None"
  by (induction cs) (auto split: option.splits)

lemma num_succ_exact: "- (2 ^ 53) \<le> k \<Longrightarrow> k < 2 ^ 53 \<Longrightarrow> num_succ (Fin k) = Fin (k + 1)"
proof -
  assume "- (2 ^ 53) \<le> k" "k < 2 ^ 53"
  then have "\<bar>k + 1\<bar> \<le> 2 ^ 53" by simp
  moreover have "(2::int) ^ 53 < 2 ^ 1024" by simp
  ultimately show ?thesis
    by (simp add: double_of_def round_double_def)
qed

lemma num_succ_stuck: "num_succ (Fin (2 ^ 53)) = Fin (2 ^ 53)"
  by (simp add: double_of_def round_double_def bit_length.simps Let_def)

lemma debugObject_step_returns:
  assumes "\<And>obj' prefix'. debugObject fuel t h obj' options (num_succ d) prefix' \<noteq> None"
  shows "debugObject (Suc fuel) t h obj options d prefix \<noteq> None"
proof -
  have items: "bracketed a b (each_call
      (\<lambda>(index, item). debugObject fuel t h item options (num_succ d) (g index)) xs) \<noteq> None"
    for xs :: "(string \<times> jsval) list" and g a b
    by (rule bracketed_returns, rule each_call_returns)
       (simp add: assms del: not_None_eq split: prod.splits)
  have members: "bracketed a b (each_call
      (\<lambda>key. debugObject fuel t h (g key) options (num_succ d) (key @ '': '')) ks) \<noteq> None"
    for ks g a b
    by (rule bracketed_returns, rule each_call_returns) (simp add: assms del: not_None_eq)
  show ?thesis
    by (simp add: Let_def items members del: not_None_eq each_call.simps
        split: sum.splits option.splits)
qed

lemma debugObject_stops:
  "num_gt d (case opt_maxDepth options of None \<Rightarrow> Fin 10 | Some n \<Rightarrow> n) \<Longrightarrow>
   debugObject (Suc fuel) t h obj options d prefix \<noteq> None"
  by (simp add: Let_def split: sum.splits)

lemma debugObject_returns:
  "(case opt_maxDepth options of None \<Rightarrow> Fin 10 | Some n \<Rightarrow> n) = Fin m \<Longrightarrow>
   m < 2 ^ 53 \<Longrightarrow> - (2 ^ 53) \<le> k \<Longrightarrow> nat (m - k + 1) < fuel \<Longrightarrow>
   debugObject fuel t h obj options (Fin k) prefix \<noteq> None"
proof (induction fuel arbitrary: obj k prefix)
  case 0
  then show ?case by simp
next
  case (Suc fuel)
  show ?case
  proof (cases "k > m")
    case True
    then show ?thesis using Suc.prems(1) by (intro debugObject_stops) simp
  next
    case False
    then have "nat (m - (k + 1) + 1) < fuel" using Suc.prems(4) by linarith
    moreover have "- (2 ^ 53) \<le> k + 1" using Suc.prems(3) by simp
    ultimately have "\<And>obj prefix. debugObject fuel t h obj options (Fin (k + 1)) prefix \<noteq> None"
      using Suc.IH[OF Suc.prems(1,2)] by blast
    moreover have "num_succ (Fin k) = Fin (k + 1)"
      using False Suc.prems(2,3) by (intro num_succ_exact) simp_all
    ultimately have "\<And>obj prefix. debugObject fuel t h obj options (num_succ (Fin k)) prefix \<noteq> None"
      by simp
    then show ?thesis by (rule debugObject_step_returns)
  qed
qed

lemma buildDebugTree_step_returns:
  assumes "\<And>el'. buildDebugTree fuel d el' (num_succ depth) maxDepth \<noteq> None"
    and "\<And>a. attribute_list (d a) \<noteq> None \<and> style_names (d a) \<noteq> None \<and> child_list (d a) \<noteq> None"
  shows "buildDebugTree (Suc fuel) d el depth maxDepth \<noteq> None"
proof -
  have "collect_children (\<lambda>child. buildDebugTree fuel d child (num_succ depth) maxDepth) cs
      \<noteq> None" for cs
    by (rule collect_children_returns) (rule assms)
  then show ?thesis
    using assms(2)
    by (auto simp: Let_def simp del: not_None_eq split: jsval.splits option.splits)
qed

lemma buildDebugTree_returns:
  "(\<And>a. attribute_list (d a) \<noteq> None \<and> style_names (d a) \<noteq> None \<and> child_list (d a) \<noteq> None) \<Longrightarrow>
   m < 2 ^ 53 \<Longrightarrow> - (2 ^ 53) \<le> k \<Longrightarrow> nat (m - k + 1) < fuel \<Longrightarrow>
   buildDebugTree fuel d el (Fin k) (Fin m) \<noteq> None"
proof (induction fuel arbitrary: el k)
  case 0
  then show ?case by simp
next
  case (Suc fuel)
  show ?case
  proof (cases "k > m")
    case True
    then show ?thesis by simp
  next
    case False
    then have "nat (m - (k + 1) + 1) < fuel" using Suc.prems(4) by linarith
    moreover have "- (2 ^ 53) \<le> k + 1" using Suc.prems(3) by simp
    ultimately have "\<And>el. buildDebugTree fuel d el (Fin (k + 1)) (Fin m) \<noteq> None"
      using Suc.IH[OF Suc.prems(1,2)] by blast
    moreover have "num_succ (Fin k) = Fin (k + 1)"
      using False Suc.prems(2,3) by (intro num_succ_exact) simp_all
    ultimately have "\<And>el. buildDebugTree fuel d el (num_succ (Fin k)) (Fin m) \<noteq> None"
      by simp
    then show ?thesis using Suc.prems(1) by (rule buildDebugTree_step_returns)
  qed
qed

lemma indent_none: "space_repeat (num_mul c (Fin 0)) = Inr []"
  by (cases c) (simp_all add: double_of_def round_double_def)

lemma debugObject_unbounded:
  "debugObject fuel t (\<lambda>a. PlainObject [(''self'', JRef 0)]) (JRef 0)
     \<lparr>opt_indentSize = Some (Fin 0), opt_maxDepth = Some PosInf, opt_showArrayIndex = None\<rparr>
     c prefix = None"
proof (induction fuel arbitrary: c prefix)
  case 0
  show ?case by simp
next
  case (Suc fuel)
  have "num_gt c PosInf = False" by (cases c) simp_all
  then show ?case using Suc.IH
    by (simp add: bracketed_def indent_none)
qed

lemma debugObject_stuck:
  "0 \<le> k \<Longrightarrow> k \<le> 2 ^ 53 \<Longrightarrow>
   debugObject fuel t (\<lambda>a. PlainObject [(''self'', JRef 0)]) (JRef 0)
     \<lparr>opt_indentSize = Some (Fin 0), opt_maxDepth = Some (Fin (2 ^ 53)), opt_showArrayIndex = None\<rparr>
     (Fin k) prefix = None"
proof (induction fuel arbitrary: k prefix)
  case 0
  show ?case by simp
next
  case (Suc fuel)
  have "\<exists>k'. num_succ (Fin k) = Fin k' \<and> 0 \<le> k' \<and> k' \<le> 2 ^ 53"
  proof (cases "k = 2 ^ 53")
    case True
    then show ?thesis using num_succ_stuck by simp
  next
    case False
    then have "num_succ (Fin k) = Fin (k + 1)" using Suc.prems by (intro num_succ_exact) simp_all
    then show ?thesis using False Suc.prems by simp
  qed
  then obtain k' where k': "num_succ (Fin k) = Fin k'" "0 \<le> k'" "k' \<le> 2 ^ 53" by blast
  have "debugObject fuel t (\<lambda>a. PlainObject [(''self'', JRef 0)]) (JRef 0)
     \<lparr>opt_indentSize = Some (Fin 0), opt_maxDepth = Some (Fin (2 ^ 53)), opt_showArrayIndex = None\<rparr>
     (Fin k') p = None" for p
    using Suc.IH[OF k'(2,3)] .
  moreover have "double_of 0 = Fin 0"
    by (simp add: double_of_def round_double_def)
  ultimately show ?case using Suc.prems k'(1)
    by (simp add: bracketed_def del: num_succ.simps)
qed

text \<open>
  C10, as the code has it. With an integer depth counter \<open>k\<close> of at least \<open>-2^53\<close> and an
  integer bound \<open>m\<close> below \<open>2^53\<close> (the default 10 of \<^verbatim>\<open>debugObject\<close> and the 10 that
  \<^verbatim>\<open>debugElement\<close> passes included), \<^verbatim>\<open>debugObject\<close> returns on every heap, cyclic ones
  included, and \<^verbatim>\<open>buildDebugTree\<close> returns on every graph of objects, cyclic ones included,
  whose loops over \<^verbatim>\<open>attributes\<close>, \<^verbatim>\<open>style\<close> and \<^verbatim>\<open>children\<close> end (as they do for the
  collections of a DOM element, whose length is an integer below \<open>2^53\<close>): each nested call
  adds one to the counter, and the nesting never exceeds \<open>m - k + 2\<close> calls (one call when
  \<open>k > m\<close>).
\<close>

theorem debug_recursion_bounded:
  "((case opt_maxDepth options of None \<Rightarrow> Fin 10 | Some n \<Rightarrow> n) = Fin m
      \<and> m < 2 ^ 53 \<and> - (2 ^ 53) \<le> k \<and> nat (m - k + 1) < fuel \<longrightarrow>
    debugObject fuel number_text h obj options (Fin k) prefix \<noteq> None)
   \<and> ((\<forall>a. attribute_list (d a) \<noteq> None \<and> style_names (d a) \<noteq> None
            \<and> child_list (d a) \<noteq> None)
      \<and> m < 2 ^ 53 \<and> - (2 ^ 53) \<le> k \<and> nat (m - k + 1) < fuel \<longrightarrow>
    buildDebugTree fuel d el (Fin k) (Fin m) \<noteq> None)
   \<and> (al_length x = NaN \<or> al_length x = NegInf \<or> (\<exists>n \<le> 2 ^ 53. al_length x = Fin n) \<longrightarrow>
        loop_items x \<noteq> None)"
proof -
  have "loop_items x \<noteq> None"
    if "al_length x = NaN \<or> al_length x = NegInf \<or> (\<exists>n \<le> 2 ^ 53. al_length x = Fin n)"
    using that by (auto simp: loop_items_def)
  then show ?thesis
    using debugObject_returns[of options m k fuel number_text h obj prefix]
      buildDebugTree_returns[of d m k fuel el]
    by blast
qed

theorem debug_recursion_bounded_witness:
  "debugObject 12 (\<lambda>i. []) (\<lambda>a. PlainObject [(''self'', JRef 0)]) (JRef 0)
     \<lparr>opt_indentSize = None, opt_maxDepth = None, opt_showArrayIndex = None\<rparr> (Fin 0) [] \<noteq> None
   \<and> buildDebugTree 12
       (\<lambda>a. \<lparr>el_tagName = JString ''DIV'',
             el_attributes = Some \<lparr>al_length = Fin 1, al_item = (\<lambda>i. (''id'', ''root''))\<rparr>,
             el_style = None, el_style_value = (\<lambda>name. []), el_textContent = [],
             el_children = Some \<lparr>al_length = Fin 1, al_item = (\<lambda>i. JRef 0)\<rparr>,
             el_rect = None\<rparr>)
       (JRef 0) (Fin 0) (Fin 10) \<noteq> None"
proof -
  let ?d = "\<lambda>a::nat. \<lparr>el_tagName = JString ''DIV'',
             el_attributes = Some \<lparr>al_length = Fin 1, al_item = (\<lambda>i. (''id'', ''root''))\<rparr>,
             el_style = None, el_style_value = (\<lambda>name. []), el_textContent = [],
             el_children = Some \<lparr>al_length = Fin 1, al_item = (\<lambda>i. JRef 0)\<rparr>,
             el_rect = None\<rparr>"
  let ?options = "\<lparr>opt_indentSize = None, opt_maxDepth = None, opt_showArrayIndex = None\<rparr>"
  have bound: "(case opt_maxDepth ?options of None \<Rightarrow> Fin 10 | Some n \<Rightarrow> n) = Fin 10"
    by simp
  have range: "(10::int) < 2 ^ 53" "- (2 ^ 53) \<le> (0::int)" "nat (10 - 0 + 1) < 12"
    by simp_all
  have loops: "\<forall>a. attribute_list (?d a) \<noteq> None \<and> style_names (?d a) \<noteq> None
      \<and> child_list (?d a) \<noteq> None"
    by (simp add: attribute_list_def style_names_def child_list_def loop_items_def)
  note bounded = debug_recursion_bounded
    [of ?options 10 0 12 "\<lambda>i. []" "\<lambda>a. PlainObject [(''self'', JRef 0)]" "JRef 0" "[]" ?d "JRef 0"]
  show ?thesis
    using bounded bound range loops by blast
qed

text \<open>
  C10 as stated fails. With \<^verbatim>\<open>maxDepth: Infinity\<close> the counter never exceeds the bound; with
  \<^verbatim>\<open>maxDepth: 2 ** 53\<close> the counter reaches \<open>2^53\<close> and stays there, since \<open>2^53 + 1\<close> is
  \<open>2^53\<close> in doubles. On an object that is its own member (\<^verbatim>\<open>indentSize: 0\<close> keeps the
  indentation empty) no amount of nesting lets \<^verbatim>\<open>debugObject\<close> return.
\<close>

theorem debug_recursion_unbounded:
  "(\<forall>fuel. debugObject fuel (\<lambda>i. []) (\<lambda>a. PlainObject [(''self'', JRef 0)]) (JRef 0)
       \<lparr>opt_indentSize = Some (Fin 0), opt_maxDepth = Some PosInf, opt_showArrayIndex = None\<rparr>
       (Fin 0) [] = None)
   \<and> (\<forall>fuel. debugObject fuel (\<lambda>i. []) (\<lambda>a. PlainObject [(''self'', JRef 0)]) (JRef 0)
       \<lparr>opt_indentSize = Some (Fin 0), opt_maxDepth = Some (Fin (2 ^ 53)),
        opt_showArrayIndex = None\<rparr>
       (Fin 0) [] = None)"
  using debugObject_unbounded[of _ "\<lambda>i. []" "Fin 0" "[]"] debugObject_stuck[of 0 _ "\<lambda>i. []" "[]"]
  by simp

section \<open>Properties of the reconciliation\<close>

subsection \<open>The allocator always finds a key\<close>

lemma digit_val_digit_char: "d < 10 \<Longrightarrow> digit_val (digit_char d) = d"
proof -
  assume "d < 10"
  then consider "d = 0" | "d = 1" | "d = 2" | "d = 3" | "d = 4" | "d = 5" | "d = 6" | "d = 7"
    | "d = 8" | "d = 9"
    by atomize_elim arith
  then show ?thesis
    by cases (simp_all add: digit_val_def digit_char_def)
qed

lemma dec_value: "foldl (\<lambda>a c. 10 * a + digit_val c) 0 (dec n) = n"
proof (induction n rule: dec.induct)
  case (1 n)
  show ?case
  proof (cases "n < 10")
    case True
    then show ?thesis by (subst dec.simps) (simp add: digit_val_digit_char)
  next
    case False
    then show ?thesis using 1
      by (subst dec.simps) (simp add: digit_val_digit_char)
  qed
qed

lemma dec_inj: "dec i = dec j \<Longrightarrow> i = j"
  by (metis dec_value)

lemma dec_not_Nil: "dec n \<noteq> []"
  by (subst dec.simps) simp

lemma key_candidate_inj: "inj (key_candidate base)"
  by (auto simp: inj_def key_candidate_def dec_not_Nil dest: dec_inj split: if_splits)

lemma allocate_key_succeeds: "\<exists>k. allocate_key used base = Some k \<and> k \<notin> set used"
proof -
  let ?cands = "map (key_candidate base) [0 ..< Suc (length used)]"
  have "distinct ?cands"
    by (simp only: distinct_map, intro conjI distinct_upt inj_on_subset[OF key_candidate_inj]) simp
  then have "card (set ?cands) = length ?cands"
    by (rule distinct_card)
  moreover have "length ?cands = Suc (length used)"
    by simp
  moreover have "card (set used) \<le> length used" by (rule card_length)
  ultimately have "\<not> set ?cands \<subseteq> set used"
    by (metis List.finite_set card_mono not_less_eq_eq)
  then obtain k where "k \<in> set ?cands" "k \<notin> set used" by blast
  then have "find (\<lambda>k. k \<notin> set used) ?cands \<noteq> None"
    by (auto simp: find_None_iff)
  then obtain k' where "find (\<lambda>k. k \<notin> set used) ?cands = Some k'" by blast
  then show ?thesis
    by (auto simp: allocate_key_def dest: find_Some_iff[THEN iffD1])
qed

lemma allocate_keys_shape:
  "\<exists>keys. length keys = length items \<and> distinct keys \<and> set keys \<inter> set used = {}
     \<and> allocate_keys H used items = map (\<lambda>(it, k). (fst it, snd it, Some k)) (zip items keys)"
proof (induction items arbitrary: used)
  case Nil
  show ?case by simp
next
  case (Cons it items)
  obtain d c where it: "it = (d, c)" by (cases it)
  obtain k where k: "allocate_key used (H d c) = Some k" "k \<notin> set used"
    using allocate_key_succeeds by blast
  obtain keys where keys: "length keys = length items" "distinct keys"
      "set keys \<inter> set (k # used) = {}"
      "allocate_keys H (k # used) items = map (\<lambda>(it, k). (fst it, snd it, Some k)) (zip items keys)"
    using Cons.IH[of "k # used"] by blast
  show ?case
    using it k keys by (intro exI[of _ "k # keys"]) auto
qed

subsection \<open>What the loader accepts and reports\<close>

lemma declarations_append: "declarations d (xs @ ys) = declarations d xs @ declarations d ys"
  by (simp add: declarations_def)

lemma loaded_Nil: "loaded seen [] [] []"
  by (simp add: loaded_def declarations_def)

lemma loaded_append:
  assumes "loaded seen xs new1 rs1" and "loaded (seen \<union> set (map fst new1)) ys new2 rs2"
  shows "loaded seen (xs @ ys) (new1 @ new2) (rs1 @ rs2)"
proof -
  have d1: "distinct (map fst new1)"
    and s1: "set (map fst new1) = {d. declarations d xs \<noteq> []} - seen"
    and f1: "\<And>d. d \<notin> seen \<Longrightarrow> declarations d xs \<noteq> [] \<Longrightarrow> (d, hd (declarations d xs)) \<in> set new1"
    and c1: "\<And>d. count_list rs1 (DuplicateIdentifierError d) =
             (if d \<in> seen then length (declarations d xs) else length (declarations d xs) - 1)"
    using assms(1) by (simp_all add: loaded_def)
  have d2: "distinct (map fst new2)"
    and s2: "set (map fst new2) = {d. declarations d ys \<noteq> []} - (seen \<union> set (map fst new1))"
    and f2: "\<And>d. d \<notin> seen \<union> set (map fst new1) \<Longrightarrow> declarations d ys \<noteq> [] \<Longrightarrow>
              (d, hd (declarations d ys)) \<in> set new2"
    and c2: "\<And>d. count_list rs2 (DuplicateIdentifierError d) =
             (if d \<in> seen \<union> set (map fst new1) then length (declarations d ys)
              else length (declarations d ys) - 1)"
    using assms(2) by (simp_all add: loaded_def)
  have A: "distinct (map fst (new1 @ new2))"
    using d1 d2 s2 by auto
  have B: "set (map fst (new1 @ new2)) = {d. declarations d (xs @ ys) \<noteq> []} - seen"
    using s1 s2 by (auto simp: declarations_append)
  have C: "(d, hd (declarations d (xs @ ys))) \<in> set (new1 @ new2)"
    if "d \<notin> seen" "declarations d (xs @ ys) \<noteq> []" for d
  proof (cases "declarations d xs = []")
    case True
    then have "d \<notin> seen \<union> set (map fst new1)" "declarations d ys \<noteq> []"
      using that s1 by (auto simp: declarations_append)
    then show ?thesis using f2 True by (simp add: declarations_append)
  next
    case False
    then show ?thesis using f1 that by (simp add: declarations_append)
  qed
  have D: "count_list (rs1 @ rs2) (DuplicateIdentifierError d) =
             (if d \<in> seen then length (declarations d (xs @ ys))
              else length (declarations d (xs @ ys)) - 1)" for d
  proof (cases "d \<in> seen")
    case True
    then show ?thesis using c1[of d] c2[of d] by (simp add: declarations_append)
  next
    case False
    show ?thesis
    proof (cases "declarations d xs = []")
      case True
      then have "d \<notin> seen \<union> set (map fst new1)" using False s1 by auto
      then show ?thesis using c1[of d] c2[of d] True False by (simp add: declarations_append)
    next
      case nonempty: False
      then have "d \<in> seen \<union> set (map fst new1)" using False s1 by auto
      moreover have "length (declarations d xs) \<ge> 1" using nonempty by (cases "declarations d xs") auto
      ultimately show ?thesis using c1[of d] c2[of d] False
        by (simp add: declarations_append)
    qed
  qed
  show ?thesis
    unfolding loaded_def using A B C D by blast
qed

lemma loaded_item:
  "\<exists>new rs. accept_item item (acc, reps) = (acc @ new, reps @ rs)
     \<and> loaded (set (map fst acc)) [item] new rs"
proof (cases "item_id item")
  case None
  then show ?thesis
    by (intro exI[of _ "[]"] exI[of _ "[MissingIdentifierError]"])
       (simp add: accept_item_def loaded_def declarations_def)
next
  case (Some d)
  show ?thesis
  proof (cases "d \<in> set (map fst acc)")
    case True
    then show ?thesis using Some
      by (intro exI[of _ "[]"] exI[of _ "[DuplicateIdentifierError d]"])
         (auto simp: accept_item_def loaded_def declarations_def)
  next
    case False
    then show ?thesis using Some
      by (intro exI[of _ "[(d, item_content item)]"] exI[of _ "[]"])
         (auto simp: accept_item_def loaded_def declarations_def)
  qed
qed

lemma loaded_items:
  "\<exists>new rs. fold accept_item items (acc, reps) = (acc @ new, reps @ rs)
     \<and> loaded (set (map fst acc)) items new rs"
proof (induction items rule: rev_induct)
  case Nil
  show ?case using loaded_Nil by (intro exI[of _ "[]"]) simp
next
  case (snoc item items)
  obtain new1 rs1 where 1: "fold accept_item items (acc, reps) = (acc @ new1, reps @ rs1)"
      "loaded (set (map fst acc)) items new1 rs1"
    using snoc.IH by blast
  obtain new2 rs2 where 2: "accept_item item (acc @ new1, reps @ rs1) = ((acc @ new1) @ new2, (reps @ rs1) @ rs2)"
      "loaded (set (map fst (acc @ new1))) [item] new2 rs2"
    using loaded_item by blast
  have "loaded (set (map fst acc)) (items @ [item]) (new1 @ new2) (rs1 @ rs2)"
    using 1(2) 2(2) by (intro loaded_append) simp_all
  then show ?case using 1(1) 2(1)
    by (intro exI[of _ "new1 @ new2"] exI[of _ "rs1 @ rs2"]) simp
qed

lemma all_items_snoc:
  "all_items (files @ [f]) = all_items files @ (case fragment_items f of Inl e \<Rightarrow> [] | Inr items \<Rightarrow> items)"
  by (simp add: all_items_def)

lemma loaded_no_items: "loaded seen [] [] [FragmentParseError]"
  by (simp add: loaded_def declarations_def)

lemma loaded_files:
  "\<exists>new rs. fold accept_file files (acc, reps) = (acc @ new, reps @ rs)
     \<and> loaded (set (map fst acc)) (all_items files) new rs"
proof (induction files rule: rev_induct)
  case Nil
  show ?case using loaded_Nil by (intro exI[of _ "[]"]) (simp add: all_items_def)
next
  case (snoc f files)
  obtain new1 rs1 where 1: "fold accept_file files (acc, reps) = (acc @ new1, reps @ rs1)"
      "loaded (set (map fst acc)) (all_items files) new1 rs1"
    using snoc.IH by blast
  obtain new2 rs2 where 2:
      "accept_file f (acc @ new1, reps @ rs1) = ((acc @ new1) @ new2, (reps @ rs1) @ rs2)"
      "loaded (set (map fst (acc @ new1)))
         (case fragment_items f of Inl e \<Rightarrow> [] | Inr items \<Rightarrow> items) new2 rs2"
  proof (cases "fragment_items f")
    case (Inl e)
    then have "e = FragmentParseError"
      by (auto simp: fragment_items_def split: option.splits json.splits)
    then show ?thesis using Inl loaded_no_items that[of "[]" "[FragmentParseError]"]
      by (simp add: accept_file_def)
  next
    case (Inr items)
    then show ?thesis using loaded_items[of items "acc @ new1" "reps @ rs1"] that
      by (auto simp: accept_file_def)
  qed
  have "loaded (set (map fst acc)) (all_items (files @ [f])) (new1 @ new2) (rs1 @ rs2)"
    unfolding all_items_snoc using 1(2) 2(2) by (intro loaded_append) simp_all
  then show ?case using 1(1) 2(1)
    by (intro exI[of _ "new1 @ new2"] exI[of _ "rs1 @ rs2"]) simp
qed

lemma load_fragments_loaded:
  "loaded {} (all_items files) (fst (load_fragments files)) (snd (load_fragments files))"
  using loaded_files[of files "[]" "[]"] by (auto simp: load_fragments_def)

subsection \<open>The worked example, evaluated\<close>

lemma example_loaded: "load_fragments example_files =
   ([(''dup/key'', [(''type'', JsonStr ''String'')]), (''a/x'', [(''v'', JsonNum 1)])],
    [FragmentParseError, DuplicateIdentifierError ''dup/key''])"
  by (simp add: load_fragments_def example_files_def accept_file_def fragment_items_def
      accept_item_def item_id_def item_content_def)

lemma example_allocated: "allocated_items example_hash example_files example_original =
   [(''dup/key'', [(''type'', JsonStr ''String'')], Some ''a11''),
    (''a/x'', [(''v'', JsonNum 1)], Some ''a12'')]"
  by (simp add: allocated_items_def example_loaded example_original_def example_hash_def
      allocate_key_def key_candidate_def dec.simps digit_char_def)

lemma example_candidate: "build_candidate example_hash example_files example_original =
   [(''a1'', JsonObj [(''type'', JsonStr ''Image'')]),
    (''a11'', JsonObj [(''type'', JsonStr ''String'')]),
    (''a12'', JsonObj [(''v'', JsonNum 1)])]"
  unfolding build_candidate_def example_allocated
  by (simp add: merge_catalog_def generated_entries_def example_original_def)

lemma example_files_not_Nil: "example_files \<noteq> []"
  by (simp add: example_files_def)

lemma catalog_equals_refl: "catalog_equals c c"
  by (simp add: catalog_equals_def)

subsection \<open>Runs\<close>

text \<open>The run when the original catalog loads, in terms of the candidate.\<close>

lemma run_with_original:
  assumes "files \<noteq> []" and "load_original st = Inr original"
  shows "run H files st b =
     (case load_existing_combined st of
        None \<Rightarrow>
          persist_and_restart (build_candidate H files original)
            (snd (load_fragments files)) st
            (b\<lparr>identifier_index := identifier_index_of (allocated_items H files original)\<rparr>)
      | Some existing \<Rightarrow>
          if catalog_equals (build_candidate H files original) existing
          then \<lparr>final_store = st\<lparr>restart_flag := False\<rparr>,
                final_broker = mark_validated
                  (b\<lparr>identifier_index := identifier_index_of (allocated_items H files original)\<rparr>),
                actions = [ClearRestartFlag, MarkValidated],
                reports = snd (load_fragments files),
                restart_signalled = False\<rparr>
          else persist_and_restart (build_candidate H files original)
                 (snd (load_fragments files)) st
                 (b\<lparr>identifier_index := identifier_index_of (allocated_items H files original)\<rparr>))"
proof -
  obtain keys where "allocate_keys H (map fst original) (fst (load_fragments files)) =
      map (\<lambda>(it, k). (fst it, snd it, Some k)) (zip (fst (load_fragments files)) keys)"
    using allocate_keys_shape by blast
  then have "exhausted_reports (allocated_items H files original) = []"
    by (auto simp: exhausted_reports_def allocated_items_def)
  then show ?thesis
    using assms by (simp add: run_def Let_def build_candidate_def split: option.splits)
qed

text \<open>
  C1. Two runs in succession over the same fragment files leave the same persisted
  combined catalog as the first run alone, and the second run does not request a restart.
\<close>

theorem run_twice:
  "combined_file (final_store (run H files (final_store (run H files st b1)) b2))
     = combined_file (final_store (run H files st b1))
   \<and> RequestRestart \<notin> set (actions (run H files (final_store (run H files st b1)) b2))"
  by (auto simp: run_def Let_def load_original_def load_existing_combined_def
      persist_and_restart_def persist_def request_restart_def delete_combined_def
      catalog_equals_refl
      split: disk_file.splits sum.splits if_splits option.splits)

lemma example_first_run:
  "run example_hash example_files example_store (b :: 'cb broker) =
     \<lparr>final_store = example_store
        \<lparr>combined_file := Content (build_candidate example_hash example_files example_original),
         restart_flag := True\<rparr>,
      final_broker = b\<lparr>identifier_index := [(''dup/key'', ''a11''), (''a/x'', ''a12'')]\<rparr>,
      actions = [Persist (build_candidate example_hash example_files example_original),
                 RequestRestart],
      reports = [FragmentParseError, DuplicateIdentifierError ''dup/key''],
      restart_signalled = True\<rparr>"
proof -
  have "load_original example_store = Inr example_original"
    by (simp add: load_original_def example_store_def)
  note run = run_with_original[OF example_files_not_Nil this, of example_hash b]
  show ?thesis
    unfolding run example_allocated example_loaded
    by (simp add: identifier_index_of_def load_existing_combined_def persist_and_restart_def
        persist_def request_restart_def example_store_def)
qed

theorem run_twice_witness:
  "combined_file (final_store (run example_hash example_files
       (final_store (run example_hash example_files example_store (new_broker :: nat broker)))
       (new_broker :: nat broker)))
     = Content [(''a1'', JsonObj [(''type'', JsonStr ''Image'')]),
                (''a11'', JsonObj [(''type'', JsonStr ''String'')]),
                (''a12'', JsonObj [(''v'', JsonNum 1)])]
   \<and> RequestRestart \<in> set (actions (run example_hash example_files example_store
                                      (new_broker :: nat broker)))
   \<and> RequestRestart \<notin> set (actions (run example_hash example_files
       (final_store (run example_hash example_files example_store (new_broker :: nat broker)))
       (new_broker :: nat broker)))"
  using run_twice[of example_hash example_files example_store "new_broker :: nat broker"
      "new_broker :: nat broker"]
  by (simp add: example_first_run example_candidate)

lemma candidate_shape:
  "\<exists>keys. length keys = length (fst (load_fragments files))
     \<and> distinct keys
     \<and> set keys \<inter> set (map fst original) = {}
     \<and> build_candidate H files original =
           original @ map (\<lambda>(it, k). (k, JsonObj (snd it))) (zip (fst (load_fragments files)) keys)
     \<and> identifier_index_of (allocated_items H files original) =
           map (\<lambda>(it, k). (fst it, k)) (zip (fst (load_fragments files)) keys)"
proof -
  obtain keys where keys: "length keys = length (fst (load_fragments files))" "distinct keys"
      "set keys \<inter> set (map fst original) = {}"
      "allocate_keys H (map fst original) (fst (load_fragments files)) =
         map (\<lambda>(it, k). (fst it, snd it, Some k)) (zip (fst (load_fragments files)) keys)"
    using allocate_keys_shape by blast
  have "concat (map (\<lambda>(d, content, key). case key of None \<Rightarrow> [] | Some k \<Rightarrow> [f d content k])
          (map (\<lambda>(it, k). (fst it, snd it, Some k)) zs)) = map (\<lambda>(it, k). f (fst it) (snd it) k) zs"
    for f :: "string \<Rightarrow> fields \<Rightarrow> string \<Rightarrow> 'x" and zs
    by (induction zs) auto
  from this[of "\<lambda>d content k. (k, JsonObj content)"] this[of "\<lambda>d content k. (d, k)"]
  have "generated_entries (allocated_items H files original) =
          map (\<lambda>(it, k). (k, JsonObj (snd it))) (zip (fst (load_fragments files)) keys)"
       "identifier_index_of (allocated_items H files original) =
          map (\<lambda>(it, k). (fst it, k)) (zip (fst (load_fragments files)) keys)"
    by (simp_all add: generated_entries_def identifier_index_of_def allocated_items_def keys(4))
  then show ?thesis
    using keys(1,2,3) by (intro exI[of _ keys]) (simp add: build_candidate_def merge_catalog_def)
qed

lemma run_persists_candidate:
  assumes "files \<noteq> []" and "load_original st = Inr original"
  shows "(\<forall>c. Persist c \<in> set (actions (run H files st b)) \<longrightarrow> c = build_candidate H files original)
     \<and> (writable st \<longrightarrow>
          (\<exists>c. combined_file (final_store (run H files st b)) = Content c
             \<and> catalog_equals (build_candidate H files original) c))
     \<and> identifier_index (final_broker (run H files st b)) =
          identifier_index_of (allocated_items H files original)"
  unfolding run_with_original[OF assms]
  by (auto simp: persist_and_restart_def persist_def request_restart_def catalog_equals_refl
      mark_validated_def load_existing_combined_def
      split: option.splits disk_file.splits)

text \<open>
  C2. With \<open>N\<close> accepted items the candidate is the original catalog, entries unchanged,
  followed by \<open>N\<close> entries under generated keys that are pairwise distinct and distinct
  from every key of the original catalog, each holding the content of its item. This
  candidate is the only catalog a run persists, and when the store can be written the
  combined catalog after the run equals it.
\<close>

theorem generated_keys_unique:
  "(\<exists>keys. length keys = length (fst (load_fragments files))
     \<and> distinct keys
     \<and> set keys \<inter> set (map fst original) = {}
     \<and> build_candidate H files original =
           original @ map (\<lambda>(it, k). (k, JsonObj (snd it))) (zip (fst (load_fragments files)) keys))
   \<and> (files \<noteq> [] \<and> load_original st = Inr original \<longrightarrow>
        (\<forall>c. Persist c \<in> set (actions (run H files st b)) \<longrightarrow> c = build_candidate H files original)
        \<and> (writable st \<longrightarrow>
             (\<exists>c. combined_file (final_store (run H files st b)) = Content c
                \<and> catalog_equals (build_candidate H files original) c)))"
  using candidate_shape[of files original H] run_persists_candidate[of files st original H b]
  by blast

theorem generated_keys_unique_witness:
  "example_files \<noteq> [] \<and> load_original example_store = Inr example_original
   \<and> writable example_store
   \<and> length (fst (load_fragments example_files)) = 2
   \<and> (\<exists>keys. length keys = length (fst (load_fragments example_files))
        \<and> distinct keys
        \<and> set keys \<inter> set (map fst example_original) = {}
        \<and> build_candidate example_hash example_files example_original =
              example_original @ map (\<lambda>(it, k). (k, JsonObj (snd it)))
                (zip (fst (load_fragments example_files)) keys))
   \<and> build_candidate example_hash example_files example_original =
        [(''a1'', JsonObj [(''type'', JsonStr ''Image'')]),
         (''a11'', JsonObj [(''type'', JsonStr ''String'')]),
         (''a12'', JsonObj [(''v'', JsonNum 1)])]
   \<and> (\<exists>c. combined_file (final_store (run example_hash example_files example_store
                                        (new_broker :: nat broker))) = Content c
        \<and> catalog_equals (build_candidate example_hash example_files example_original) c)"
proof -
  have files: "example_files \<noteq> []"
    by (rule example_files_not_Nil)
  have original: "load_original example_store = Inr example_original"
    by (simp add: load_original_def example_store_def)
  have writable: "writable example_store"
    by (simp add: example_store_def)
  have two: "length (fst (load_fragments example_files)) = 2"
    by (simp add: example_loaded)
  note keys = generated_keys_unique
    [of example_files example_original example_hash example_store "new_broker :: nat broker"]
  show ?thesis
    using files original writable two example_candidate keys by blast
qed




lemma register_pending:
  "readiness b = Pending \<Longrightarrow> fold on_ready cbs b = b\<lparr>queue := queue b @ cbs\<rparr>"
  by (induction cbs arbitrary: b) (simp_all add: on_ready_def)

lemma registered:
  "fold on_ready cbs new_broker =
     \<lparr>readiness = Pending, queue = cbs, invoked = [], identifier_index = []\<rparr>"
  by (simp add: register_pending new_broker_def)

lemma run_broker_cases:
  "(MarkValidated \<in> set (actions (run H files st b)) \<and>
      RequestRestart \<notin> set (actions (run H files st b)) \<and>
      (\<exists>ix. final_broker (run H files st b) = mark_validated (b\<lparr>identifier_index := ix\<rparr>)))
   \<or> (MarkValidated \<notin> set (actions (run H files st b)) \<and>
      (\<exists>ix. final_broker (run H files st b) = b\<lparr>identifier_index := ix\<rparr>))"
proof (cases "files = []")
  case True
  have "b = b\<lparr>identifier_index := identifier_index b\<rparr>" by simp
  then show ?thesis using True
    by (auto simp: run_def intro: exI[of _ "identifier_index b"])
next
  case False
  show ?thesis
  proof (cases "load_original st")
    case (Inl e)
    have "b = b\<lparr>identifier_index := identifier_index b\<rparr>" by simp
    then show ?thesis using False Inl
      by (auto simp: run_def intro: exI[of _ "identifier_index b"])
  next
    case (Inr original)
    show ?thesis
      unfolding run_with_original[OF False Inr]
      by (auto simp: persist_and_restart_def split: option.splits sum.splits)
  qed
qed

text \<open>
  C4. For callbacks registered with \<^verbatim>\<open>on_ready\<close> before the run, in the order \<open>cbs\<close>: when the
  run validates, exactly these callbacks have been invoked, once each and in registration
  order (validating again invokes nothing more), and a callback registered afterwards is
  invoked at once and not queued. A run that requests a restart does not validate, and in
  a run that does not validate no callback is invoked: they stay queued, as does one
  registered afterwards.
\<close>

theorem readiness_ordering:
  "(MarkValidated \<in> set (actions (run H files st (fold on_ready cbs new_broker))) \<longrightarrow>
      invoked (final_broker (run H files st (fold on_ready cbs new_broker))) = cbs
      \<and> readiness (final_broker (run H files st (fold on_ready cbs new_broker))) = Validated
      \<and> invoked (mark_validated (final_broker (run H files st (fold on_ready cbs new_broker))))
          = cbs
      \<and> invoked (on_ready cb (final_broker (run H files st (fold on_ready cbs new_broker))))
          = cbs @ [cb]
      \<and> queue (on_ready cb (final_broker (run H files st (fold on_ready cbs new_broker)))) = [])
   \<and> (RequestRestart \<in> set (actions (run H files st (fold on_ready cbs new_broker))) \<longrightarrow>
      MarkValidated \<notin> set (actions (run H files st (fold on_ready cbs new_broker))))
   \<and> (MarkValidated \<notin> set (actions (run H files st (fold on_ready cbs new_broker))) \<longrightarrow>
      invoked (final_broker (run H files st (fold on_ready cbs new_broker))) = []
      \<and> readiness (final_broker (run H files st (fold on_ready cbs new_broker))) = Pending
      \<and> invoked (on_ready cb (final_broker (run H files st (fold on_ready cbs new_broker))))
          = []
      \<and> queue (on_ready cb (final_broker (run H files st (fold on_ready cbs new_broker))))
          = cbs @ [cb])"
  using run_broker_cases[of H files st "fold on_ready cbs new_broker"]
  unfolding registered
  by (auto simp: mark_validated_def on_ready_def)

lemma example_second_run:
  "actions (run example_hash example_files
      (example_store
        \<lparr>combined_file := Content (build_candidate example_hash example_files example_original),
         restart_flag := True\<rparr>) b)
   = [ClearRestartFlag, MarkValidated]"
proof -
  let ?same = "example_store
        \<lparr>combined_file := Content (build_candidate example_hash example_files example_original),
         restart_flag := True\<rparr>"
  have original: "load_original ?same = Inr example_original"
    by (simp add: load_original_def example_store_def)
  show ?thesis
    unfolding run_with_original[OF example_files_not_Nil original]
    by (simp add: load_existing_combined_def catalog_equals_refl)
qed

theorem readiness_ordering_witness:
  "MarkValidated \<in> set (actions (run example_hash example_files
      (example_store
        \<lparr>combined_file := Content (build_candidate example_hash example_files example_original),
         restart_flag := True\<rparr>)
      (fold on_ready [1, 2, 3 :: nat] new_broker)))
   \<and> invoked (final_broker (run example_hash example_files
      (example_store
        \<lparr>combined_file := Content (build_candidate example_hash example_files example_original),
         restart_flag := True\<rparr>)
      (fold on_ready [1, 2, 3 :: nat] new_broker))) = [1, 2, 3]
   \<and> invoked (on_ready 4 (final_broker (run example_hash example_files
      (example_store
        \<lparr>combined_file := Content (build_candidate example_hash example_files example_original),
         restart_flag := True\<rparr>)
      (fold on_ready [1, 2, 3 :: nat] new_broker)))) = [1, 2, 3, 4]
   \<and> RequestRestart \<in> set (actions (run example_hash example_files example_store
      (fold on_ready [1, 2, 3 :: nat] new_broker)))
   \<and> invoked (final_broker (run example_hash example_files example_store
      (fold on_ready [1, 2, 3 :: nat] new_broker))) = []"
proof -
  let ?same = "example_store
        \<lparr>combined_file := Content (build_candidate example_hash example_files example_original),
         restart_flag := True\<rparr>"
  let ?b = "fold on_ready [1, 2, 3 :: nat] new_broker"
  have validated: "MarkValidated \<in> set (actions (run example_hash example_files ?same ?b))"
    unfolding example_second_run by simp
  have restart: "RequestRestart \<in> set (actions (run example_hash example_files example_store ?b))"
    unfolding example_first_run by simp
  note same_run = readiness_ordering[of example_hash example_files ?same "[1, 2, 3]" 4]
  note first_run = readiness_ordering[of example_hash example_files example_store "[1, 2, 3]" 4]
  have "[1, 2, 3] @ [4] = [1, 2, 3, 4 :: nat]" by simp
  then show ?thesis
    using validated restart same_run first_run by metis
qed

subsection \<open>Identifiers and keys\<close>

lemma index_entry_unique:
  "distinct (map fst xs) \<Longrightarrow> (d, c) \<in> set xs \<Longrightarrow> length keys = length xs \<Longrightarrow>
   \<exists>k. filter (\<lambda>e. fst e = d) (map (\<lambda>(it, k). (fst it, k)) (zip xs keys)) = [(d, k)]
      \<and> (k, JsonObj c) \<in> set (map (\<lambda>(it, k). (k, JsonObj (snd it))) (zip xs keys))"
proof (induction xs arbitrary: keys)
  case Nil
  then show ?case by simp
next
  case (Cons x xs)
  obtain k ks where keys: "keys = k # ks" "length ks = length xs"
    using Cons.prems(3) by (cases keys) auto
  show ?case
  proof (cases "x = (d, c)")
    case True
    have "\<forall>it \<in> set xs. fst it \<noteq> d" using Cons.prems(1) True by auto
    then have "filter (\<lambda>e. fst e = d) (map (\<lambda>(it, k). (fst it, k)) (zip xs ks)) = []"
      by (force simp: filter_empty_conv dest: set_zip_leftD)
    then show ?thesis using True keys by (intro exI[of _ k]) simp
  next
    case False
    then have in_rest: "(d, c) \<in> set xs" using Cons.prems(2) by simp
    then have "fst x \<noteq> d" using Cons.prems(1) by (auto simp: image_iff)
    moreover have "distinct (map fst xs)" using Cons.prems(1) by simp
    then obtain k' where
        "filter (\<lambda>e. fst e = d) (map (\<lambda>(it, k). (fst it, k)) (zip xs ks)) = [(d, k')]"
        "(k', JsonObj c) \<in> set (map (\<lambda>(it, k). (k, JsonObj (snd it))) (zip xs ks))"
      using Cons.IH[OF _ in_rest keys(2)] by blast
    ultimately show ?thesis using keys by (cases x) (intro exI[of _ k'], simp)
  qed
qed

lemma run_reports_duplicates:
  assumes "files \<noteq> []" and "load_original st = Inr original"
  shows "count_list (reports (run H files st b)) (DuplicateIdentifierError d) =
           count_list (snd (load_fragments files)) (DuplicateIdentifierError d)"
  unfolding run_with_original[OF assms]
  by (auto simp: persist_and_restart_def persist_def split: option.splits)

text \<open>
  C5. When an \<^verbatim>\<open>itemID\<close> is declared by one or more items of the loaded fragments (of one
  fragment or of several), the IdentifierIndex ends with exactly one entry for it, whose
  key holds the content of the first declaration encountered; every later declaration is
  skipped with one \<^verbatim>\<open>DuplicateIdentifierError\<close>, so two declarations give exactly one
  report; and the run goes on to the store.
\<close>

theorem duplicate_identifier:
  assumes "files \<noteq> []"
      and "load_original st = Inr original"
      and "declarations d (all_items files) \<noteq> []"
  shows "(\<exists>k. filter (\<lambda>e. fst e = d) (identifier_index (final_broker (run H files st b))) = [(d, k)]
            \<and> (k, JsonObj (hd (declarations d (all_items files))))
                 \<in> set (build_candidate H files original))
       \<and> count_list (reports (run H files st b)) (DuplicateIdentifierError d) =
           length (declarations d (all_items files)) - 1
       \<and> actions (run H files st b) \<noteq> []"
proof -
  have loaded: "loaded {} (all_items files) (fst (load_fragments files)) (snd (load_fragments files))"
    by (rule load_fragments_loaded)
  then have accepted: "distinct (map fst (fst (load_fragments files)))"
      "(d, hd (declarations d (all_items files))) \<in> set (fst (load_fragments files))"
    and dups: "count_list (snd (load_fragments files)) (DuplicateIdentifierError d) =
      length (declarations d (all_items files)) - 1"
    using assms(3) by (simp_all add: loaded_def)
  obtain keys where keys: "length keys = length (fst (load_fragments files))"
      "build_candidate H files original =
         original @ map (\<lambda>(it, k). (k, JsonObj (snd it))) (zip (fst (load_fragments files)) keys)"
      "identifier_index_of (allocated_items H files original) =
         map (\<lambda>(it, k). (fst it, k)) (zip (fst (load_fragments files)) keys)"
    using candidate_shape[of files original H] by blast
  obtain k where k:
      "filter (\<lambda>e. fst e = d) (map (\<lambda>(it, k). (fst it, k)) (zip (fst (load_fragments files)) keys))
         = [(d, k)]"
      "(k, JsonObj (hd (declarations d (all_items files))))
         \<in> set (map (\<lambda>(it, k). (k, JsonObj (snd it))) (zip (fst (load_fragments files)) keys))"
    using index_entry_unique[OF accepted keys(1)] by blast
  have index: "identifier_index (final_broker (run H files st b)) =
      identifier_index_of (allocated_items H files original)"
    using run_persists_candidate[OF assms(1,2)] by blast
  have first: "\<exists>k. filter (\<lambda>e. fst e = d) (identifier_index (final_broker (run H files st b))) = [(d, k)]
            \<and> (k, JsonObj (hd (declarations d (all_items files))))
                 \<in> set (build_candidate H files original)"
    unfolding index keys(2,3) using k by (intro exI[of _ k]) simp
  have going: "actions (run H files st b) \<noteq> []"
    unfolding run_with_original[OF assms(1,2)]
    by (auto simp: persist_and_restart_def persist_def split: option.splits)
  show ?thesis
    using first dups going run_reports_duplicates[OF assms(1,2), of H b d] by simp
qed

theorem duplicate_identifier_witness:
  "example_files \<noteq> [] \<and> load_original example_store = Inr example_original
   \<and> declarations ''dup/key'' (all_items example_files) =
        [[(''type'', JsonStr ''String'')], [(''type'', JsonStr ''Layout'')]]
   \<and> filter (\<lambda>e. fst e = ''dup/key'')
        (identifier_index (final_broker (run example_hash example_files example_store
           (new_broker :: nat broker)))) = [(''dup/key'', ''a11'')]
   \<and> (''a11'', JsonObj [(''type'', JsonStr ''String'')])
        \<in> set (build_candidate example_hash example_files example_original)
   \<and> count_list (reports (run example_hash example_files example_store
        (new_broker :: nat broker))) (DuplicateIdentifierError ''dup/key'') = 1"
proof -
  have files: "example_files \<noteq> []"
    by (rule example_files_not_Nil)
  have original: "load_original example_store = Inr example_original"
    by (simp add: load_original_def example_store_def)
  have declared: "declarations ''dup/key'' (all_items example_files) =
        [[(''type'', JsonStr ''String'')], [(''type'', JsonStr ''Layout'')]]"
    by (simp add: declarations_def all_items_def example_files_def fragment_items_def
        item_id_def item_content_def)
  then have nonempty: "declarations ''dup/key'' (all_items example_files) \<noteq> []"
    by simp
  note dup = duplicate_identifier[OF files original nonempty, of example_hash
      "new_broker :: nat broker"]
  have index: "filter (\<lambda>e. fst e = ''dup/key'')
        (identifier_index (final_broker (run example_hash example_files example_store
           (new_broker :: nat broker)))) = [(''dup/key'', ''a11'')]"
    unfolding example_first_run by simp
  have entry: "(''a11'', JsonObj [(''type'', JsonStr ''String'')])
        \<in> set (build_candidate example_hash example_files example_original)"
    unfolding example_candidate by simp
  have "count_list (reports (run example_hash example_files example_store
        (new_broker :: nat broker))) (DuplicateIdentifierError ''dup/key'') = 1"
    using dup unfolding declared by simp
  then show ?thesis
    using files original declared index entry by (intro conjI)
qed

end
